theory Spec2Isabelle
  imports Main "HOL-Library.Sublist" "HOL-Library.AList"
begin

section \<open>Data model of \<open>paperless_mail/mail.py\<close>\<close>

text \<open>
  Dates are day numbers: the proleptic Gregorian ordinal of \<open>datetime.date\<close>, from 1
  (the first day of the year 1) to 3652059 (the last day of the year 9999). Python text
  is a \<open>string\<close>; the credentials, whose encoding matters, are lists of code points,
  and byte strings are lists of byte values.
\<close>

type_synonym date = int
type_synonym ustr = "nat list"
type_synonym bytes = "nat list"

text \<open>
  Modelled from the spec: the enumerations \<open>MailAccount.ImapSecurity\<close>,
  \<open>MailRule.MailAction\<close>, \<open>MailRule.AttachmentProcessing\<close>, \<open>MailRule.TitleSource\<close> and
  \<open>MailRule.CorrespondentSource\<close> are declared in \<open>paperless_mail/models.py\<close>, which is
  not among the sources; their members are the ones the spec's data model lists and
  \<open>mail.py\<close> compares against.
\<close>

datatype ImapSecurity = NONE | STARTTLS | SSL

datatype MailAction = DELETE | MOVE | MARK_READ | FLAG | TAG

datatype AttachmentProcessing = ATTACHMENTS_ONLY | EVERYTHING

datatype TitleSource = FROM_SUBJECT | FROM_FILENAME

datatype CorrespondentSource = FROM_NOTHING | FROM_EMAIL | FROM_NAME | FROM_CUSTOM

record Correspondent =
  correspondent_id :: nat
  correspondent_name :: string

record DocumentType =
  document_type_id :: nat

record MailAccount =
  account_name :: string
  imap_server :: string
  imap_port :: nat
  imap_security :: ImapSecurity
  username :: ustr
  password :: ustr
  character_set :: string

record MailRule =
  rule_name :: string
  account :: MailAccount
  folder :: string
  order :: int
  maximum_age :: int
  filter_from :: "string option"
  filter_subject :: "string option"
  filter_body :: "string option"
  filter_attachment_filename :: "string option"
  attachment_type :: AttachmentProcessing
  assign_title_from :: TitleSource
  assign_correspondent_from :: CorrespondentSource
  assign_correspondent :: "Correspondent option"
  assign_document_type :: "DocumentType option"
  assign_tags :: "nat list"
  action :: MailAction
  action_parameter :: "string option"

record MailAttachment =
  filename :: string
  content_disposition :: string
  content_type :: string
  payload :: bytes

text \<open>The field \<open>from'\<close> is the source's \<open>from_\<close>.\<close>

record MailMessage =
  uid :: string
  subject :: string
  from' :: string
  from_values :: "string option"
  attachments :: "MailAttachment list"

subsection \<open>Exceptions\<close>

text \<open>
  \<open>MailError\<close> carries what its message names and the exception it was raised
  \<open>from\<close>. \<open>OtherError\<close> stands for every exception class the module does not name
  (socket, IMAP, file system and queue errors).
\<close>

datatype mail_error =
    ErrAuthenticating string
  | ErrFolder string string string
  | ErrFetching string string
  | ErrPostConsume string

datatype exn =
    MailError mail_error exn
  | UnicodeEncodeError
  | MailboxFolderSelectError
  | DatabaseError
  | NotImplementedError
  | OverflowError
  | ValueError
  | OtherError string

fun is_MailError :: "exn \<Rightarrow> bool" where
  "is_MailError (MailError m c) = True"
| "is_MailError _ = False"

subsection \<open>Search criteria\<close>

text \<open>
  A criteria dictionary is a list of keys with their values, each key once, in the order
  of insertion: \<open>d[k] = v\<close> is \<open>AList.update k v d\<close>, \<open>del d[k]\<close> is
  \<open>AList.delete k d\<close>, \<open>k in d\<close> is \<open>k \<in> fst ` set d\<close>, \<open>d[k]\<close> is \<open>map_of d k\<close> and
  \<open>{**a, **b}\<close> is \<open>dict_merge a b\<close>. The value \<open>TextV None\<close> is Python's \<open>None\<close>.
\<close>

datatype crit_value = DateV date | TextV "string option" | BoolV bool

type_synonym criteria = "(string \<times> crit_value) list"

definition dict_merge :: "criteria \<Rightarrow> criteria \<Rightarrow> criteria" where
  "dict_merge a b = fold (\<lambda>(k, v). AList.update k v) b a"

text \<open>
  \<open>AND\<close> and \<open>NOT\<close> are the query classes of \<open>imap_tools\<close>, built from positional
  sub-queries and keyword criteria. Their constructor is not among the sources; it is
  modelled from the behaviour of the library: keyword criteria whose value is \<open>None\<close>
  are left out of the query, and a query with no sub-query and no other keyword
  criterion raises \<open>ValueError\<close>.
\<close>

datatype query = AND "query list" criteria | NOT "query list" criteria

definition logic_operator ::
  "(query list \<Rightarrow> criteria \<Rightarrow> query) \<Rightarrow> query list \<Rightarrow> criteria \<Rightarrow> exn + query" where
  "logic_operator cls converted_strings params =
     (if converted_strings = [] \<and> list_all (\<lambda>(k, v). v = TextV None) params
      then Inl ValueError
      else Inr (cls converted_strings params))"

text \<open>
  \<open>timedelta(days=n)\<close> raises \<open>OverflowError\<close> beyond 999999999 days, and the
  difference of a date and a \<open>timedelta\<close> raises it when the result is not a date.
\<close>

definition timedelta :: "int \<Rightarrow> exn + int" where
  "timedelta days = (if \<bar>days\<bar> \<le> 999999999 then Inr days else Inl OverflowError)"

definition date_sub :: "date \<Rightarrow> int \<Rightarrow> exn + date" where
  "date_sub d delta =
     (if 1 \<le> d - delta \<and> d - delta \<le> 3652059 then Inr (d - delta) else Inl OverflowError)"

text \<open>Python's truth test of an optional string: neither \<open>None\<close> nor empty.\<close>

fun truthy :: "string option \<Rightarrow> bool" where
  "truthy None = False"
| "truthy (Some s) = (s \<noteq> [])"

section \<open>Rule actions\<close>

datatype RuleAction =
    DeleteMailAction
  | MarkReadMailAction
  | MoveMailAction
  | FlagMailAction
  | TagMailAction "string option"

fun get_criteria :: "RuleAction \<Rightarrow> criteria" where
  "get_criteria DeleteMailAction = []"
| "get_criteria MarkReadMailAction = [(''seen'', BoolV False)]"
| "get_criteria MoveMailAction = []"
| "get_criteria FlagMailAction = [(''flagged'', BoolV False)]"
| "get_criteria (TagMailAction keyword) =
     [(''no_keyword'', TextV keyword), (''gmail_label'', TextV keyword)]"

definition get_rule_action :: "MailRule \<Rightarrow> exn + RuleAction" where
  "get_rule_action rule =
     (if action rule = FLAG then Inr FlagMailAction
      else if action rule = DELETE then Inr DeleteMailAction
      else if action rule = MOVE then Inr MoveMailAction
      else if action rule = MARK_READ then Inr MarkReadMailAction
      else if action rule = TAG then Inr (TagMailAction (action_parameter rule))
      else Inl NotImplementedError)"

section \<open>Building the criteria\<close>

definition make_criterias :: "date \<Rightarrow> MailRule \<Rightarrow> exn + criteria" where
  "make_criterias today rule =
     (case timedelta (maximum_age rule) of
        Inl e \<Rightarrow> Inl e
      | Inr delta \<Rightarrow>
          (case date_sub today delta of
             Inl e \<Rightarrow> Inl e
           | Inr maximum_age_date \<Rightarrow>
               (let criterias = [];
                    criterias = (if maximum_age rule > 0
                                 then AList.update ''date_gte'' (DateV maximum_age_date) criterias
                                 else criterias);
                    criterias = (if truthy (filter_from rule)
                                 then AList.update ''from_'' (TextV (filter_from rule)) criterias
                                 else criterias);
                    criterias = (if truthy (filter_subject rule)
                                 then AList.update ''subject'' (TextV (filter_subject rule)) criterias
                                 else criterias);
                    criterias = (if truthy (filter_body rule)
                                 then AList.update ''body'' (TextV (filter_body rule)) criterias
                                 else criterias)
                in case get_rule_action rule of
                     Inl e \<Rightarrow> Inl e
                   | Inr a \<Rightarrow> Inr (dict_merge criterias (get_criteria a)))))"

text \<open>
  The query \<open>handle_mail_rule\<close> hands to \<open>fetch\<close> (lines 278 to 282): the flat
  conjunction, or, when the dictionary has a \<open>gmail_label\<close> entry, that entry deleted
  and negated. Each of the three constructions can raise.
\<close>

definition criterias_imap :: "criteria \<Rightarrow> exn + query" where
  "criterias_imap criterias =
     (case logic_operator AND [] criterias of
        Inl e \<Rightarrow> Inl e
      | Inr q \<Rightarrow>
          (if ''gmail_label'' \<in> fst ` set criterias
           then (let gmail_label = the (map_of criterias ''gmail_label'');
                     criterias' = AList.delete ''gmail_label'' criterias
                 in case logic_operator NOT [] [(''gmail_label'', gmail_label)] of
                      Inl e \<Rightarrow> Inl e
                    | Inr negated \<Rightarrow> logic_operator AND [negated] criterias')
           else Inr q))"

section \<open>Library functions the module calls\<close>

subsection \<open>\<open>str.lower\<close>, \<open>fnmatch\<close>, \<open>re.search\<close>, \<open>str.encode\<close>\<close>

text \<open>
  \<open>str.lower\<close> lowers every cased character of Unicode; its table is not part of the
  model, and the function is a parameter of the outside (\<open>str_lower\<close> below). What is
  known of it is its effect on ASCII text, \<open>ascii_lower\<close>: the capitals \<open>A\<close> to
  \<open>Z\<close> are lowered and nothing else changes.
\<close>

definition ascii_lower_char :: "char \<Rightarrow> char" where
  "ascii_lower_char c =
     (case map_of (zip ''ABCDEFGHIJKLMNOPQRSTUVWXYZ'' ''abcdefghijklmnopqrstuvwxyz'') c of
        Some l \<Rightarrow> l
      | None \<Rightarrow> c)"

definition ascii_lower :: "string \<Rightarrow> string" where
  "ascii_lower s = map ascii_lower_char s"


text \<open>
  \<open>fnmatch(name, pat)\<close> with the pattern language of its documentation: \<open>*\<close> matches
  everything, \<open>?\<close> one character, \<open>[seq]\<close> a character of \<open>seq\<close> (with ranges
  \<open>a-z\<close>), \<open>[!seq]\<close> a character not in \<open>seq\<close>; a \<open>[\<close> that is never closed stands for
  itself. The closing bracket is searched as \<open>fnmatch.translate\<close> does: after an optional
  \<open>!\<close> and an optional first \<open>]\<close>. On POSIX \<open>os.path.normcase\<close> is the identity, so
  \<open>fnmatch\<close> is \<open>fnmatchcase\<close>.
\<close>

datatype glob = Star | AnyChar | Lit char | CharClass bool string

fun until_bracket :: "string \<Rightarrow> (string \<times> string) option" where
  "until_bracket [] = None"
| "until_bracket (c # cs) =
     (if c = CHR '']'' then Some ([], cs)
      else case until_bracket cs of
             None \<Rightarrow> None
           | Some (stuff, rest) \<Rightarrow> Some (c # stuff, rest))"

fun after_first :: "string \<Rightarrow> (string \<times> string) option" where
  "after_first [] = None"
| "after_first (c # cs) =
     (if c = CHR '']''
      then (case until_bracket cs of
              None \<Rightarrow> None
            | Some (stuff, rest) \<Rightarrow> Some (c # stuff, rest))
      else until_bracket (c # cs))"

fun bracket :: "string \<Rightarrow> (bool \<times> string \<times> string) option" where
  "bracket [] = None"
| "bracket (c # cs) =
     (if c = CHR ''!''
      then (case after_first cs of
              None \<Rightarrow> None
            | Some (stuff, rest) \<Rightarrow> Some (True, stuff, rest))
      else (case after_first (c # cs) of
              None \<Rightarrow> None
            | Some (stuff, rest) \<Rightarrow> Some (False, stuff, rest)))"

function translate :: "string \<Rightarrow> glob list" where
  "translate [] = []"
| "translate (c # cs) =
     (if c = CHR ''*'' then Star # translate cs
      else if c = CHR ''?'' then AnyChar # translate cs
      else if c = CHR ''[''
      then (case bracket cs of
              None \<Rightarrow> Lit c # translate cs
            | Some (negated, stuff, rest) \<Rightarrow> CharClass negated stuff # translate rest)
      else Lit c # translate cs)"
  by pat_completeness auto
termination
proof (relation "measure length")
  have u: "length rest < length cs" if "until_bracket cs = Some (stuff, rest)"
    for cs stuff rest
    using that by (induction cs arbitrary: stuff) (auto split: if_splits option.splits)
  have a: "length rest < length cs" if "after_first cs = Some (stuff, rest)"
    for cs stuff rest
    using that u [of cs stuff rest] u [of "tl cs" "tl stuff" rest]
    by (cases cs) (auto split: if_splits option.splits)
  have b: "length rest < length cs" if "bracket cs = Some (negated, stuff, rest)"
    for cs negated stuff rest
    using that a [of cs stuff rest] a [of "tl cs" stuff rest]
    by (cases cs) (auto split: if_splits option.splits)
  show "wf (measure length)" by simp
  fix c :: char and cs x2 x y xa ya
  assume "bracket cs = Some x2" "(x, y) = x2" "(xa, ya) = y"
  then show "(ya, c # cs) \<in> measure length"
    using b [of cs x xa ya] by simp
qed simp_all

fun in_class :: "string \<Rightarrow> char \<Rightarrow> bool" where
  "in_class (a # m # b # rest) c =
     (if m = CHR ''-''
      then ((of_char a :: nat) \<le> of_char c \<and> (of_char c :: nat) \<le> of_char b) \<or> in_class rest c
      else c = a \<or> in_class (m # b # rest) c)"
| "in_class (a # rest) c = (c = a \<or> in_class rest c)"
| "in_class [] c = False"

fun glob_match :: "glob list \<Rightarrow> string \<Rightarrow> bool" where
  "glob_match [] name = (name = [])"
| "glob_match (Star # gs) [] = glob_match gs []"
| "glob_match (Star # gs) (c # cs) = (glob_match gs (c # cs) \<or> glob_match (Star # gs) cs)"
| "glob_match (AnyChar # gs) [] = False"
| "glob_match (AnyChar # gs) (c # cs) = glob_match gs cs"
| "glob_match (Lit a # gs) [] = False"
| "glob_match (Lit a # gs) (c # cs) = (a = c \<and> glob_match gs cs)"
| "glob_match (CharClass negated stuff # gs) [] = False"
| "glob_match (CharClass negated stuff # gs) (c # cs) =
     ((in_class stuff c \<noteq> negated) \<and> glob_match gs cs)"

definition fnmatch :: "string \<Rightarrow> string \<Rightarrow> bool" where
  "fnmatch name pat = glob_match (translate pat) name"

text \<open>
  \<open>re.search(r"gmail\.com$|googlemail\.com$", host)\<close>: the host ends with one of the
  two domains; Python's \<open>$\<close> also matches just before a final newline.
\<close>

definition at_dollar :: "string \<Rightarrow> string \<Rightarrow> bool" where
  "at_dollar lit s = (suffix lit s \<or> suffix (lit @ [CHR 0x0A]) s)"

definition re_search_gmail :: "string \<Rightarrow> bool" where
  "re_search_gmail host = (at_dollar ''gmail.com'' host \<or> at_dollar ''googlemail.com'' host)"

text \<open>\<open>str.encode("utf8")\<close>; a surrogate code point cannot be encoded.\<close>

definition utf8_char :: "nat \<Rightarrow> exn + bytes" where
  "utf8_char c =
     (if c < 128 then Inr [c]
      else if c < 2048 then Inr [192 + c div 64, 128 + c mod 64]
      else if c < 65536
      then (if 55296 \<le> c \<and> c \<le> 57343 then Inl UnicodeEncodeError
            else Inr [224 + c div 4096, 128 + c div 64 mod 64, 128 + c mod 64])
      else if c < 1114112
      then Inr [240 + c div 262144, 128 + c div 4096 mod 64, 128 + c div 64 mod 64,
                128 + c mod 64]
      else Inl UnicodeEncodeError)"

fun encode_utf8 :: "ustr \<Rightarrow> exn + bytes" where
  "encode_utf8 [] = Inr []"
| "encode_utf8 (c # cs) =
     (case utf8_char c of
        Inl e \<Rightarrow> Inl e
      | Inr b \<Rightarrow> (case encode_utf8 cs of Inl e \<Rightarrow> Inl e | Inr bs \<Rightarrow> Inr (b @ bs)))"

section \<open>The world outside the module\<close>

text \<open>
  Every call that leaves the module is recorded in the \<open>world\<close>: the IMAP commands sent
  on the mailbox session, the files written to the scratch directory, the tasks handed
  to the queue and the log. \<open>Fetch\<close> is the call of \<open>M.fetch\<close> with its criteria, and
  \<open>Logout\<close> the release of the session at the end of the \<open>with\<close> block, on every
  path out of it.
\<close>

datatype MailBox =
    MailBoxUnencrypted string nat
  | MailBoxTls string nat
  | MailBoxSSL string nat

fun host :: "MailBox \<Rightarrow> string" where
  "host (MailBoxUnencrypted server port) = server"
| "host (MailBoxTls server port) = server"
| "host (MailBoxSSL server port) = server"

datatype flag = SEEN | FLAGGED | Keyword "string option"

datatype imap_cmd =
    Login ustr ustr
  | Authenticate string bytes
  | FolderSet string
  | FolderList
  | Fetch query bool string
  | Flag "string list" "flag list" bool
  | Move "string list" "string option"
  | Delete "string list"
  | Uid string string string "string option"
  | Logout

record consume_file =
  path :: string
  override_filename :: string
  override_title :: string
  override_correspondent_id :: "nat option"
  override_document_type_id :: "nat option"
  override_tag_ids :: "nat list"
  task_name :: string

datatype level = Debug | Info | Error

datatype log_msg =
    ProcessingAccount string
  | FallingBackToPlain
  | UnableToAuthenticatePlain
  | ErrorAuthenticating string exn
  | ProcessingRules string nat
  | ErrorProcessingRule string exn
  | ErrorRetrievingMailbox string exn
  | SelectingFolder string string
  | UnableToAccessFolder string
  | LocatedFolder string
  | FolderListingFailed exn
  | Searching string query
  | ErrorProcessingMail string string exn
  | ProcessedMails string nat
  | RunningActions string nat
  | ProcessingMail string string string nat
  | SkippingDisposition string string string
  | ConsumingAttachment string string string string
  | SkippingMimeType string string string
  | ErrorRetrievingCorrespondent string exn

record world =
  imap :: "imap_cmd list"
  files :: "(string \<times> bytes) list"
  tasks :: "consume_file list"
  logged :: "(level \<times> log_msg) list"

text \<open>
  What the outside answers is a parameter: whether a connection opens, what the server
  answers to a command after the commands sent so far, what \<open>magic\<close> sniffs from
  a payload, which mime types the parsers support, whether a temporary file and a task
  can be created, what the correspondent table returns, which rules an account has, and
  the pure helpers \<open>str.lower\<close>, \<open>pathvalidate.sanitize_filename\<close> and
  \<open>os.path.splitext(os.path.basename(_))[0]\<close>. An answer \<open>Some e\<close> or \<open>Inl e\<close> is the
  call raising \<open>e\<close>.

  The answer to a fetch has two stages, since the messages may be produced lazily (the
  \<open>fetch\<close> of \<open>imap_tools\<close> is a generator): \<open>Inl e\<close> is the call itself raising,
  and \<open>Inr (messages, stopped)\<close> is the call returning an iterator that yields
  \<open>messages\<close> and then ends (\<open>stopped = None\<close>) or raises (\<open>stopped = Some e\<close>) inside
  the \<open>for\<close> loop. The release of the session raises an exception of the library,
  never the \<open>MailError\<close> of this module: \<open>logout_r\<close> gives its message.
\<close>

record env =
  connect_r :: "MailBox \<Rightarrow> exn option"
  imap_r :: "imap_cmd list \<Rightarrow> imap_cmd \<Rightarrow> exn option"
  folder_list_r :: "imap_cmd list \<Rightarrow> exn + string list"
  fetch_r :: "imap_cmd list \<Rightarrow> imap_cmd \<Rightarrow> exn + MailMessage list \<times> exn option"
  logout_r :: "imap_cmd list \<Rightarrow> string option"
  from_buffer :: "bytes \<Rightarrow> exn + string"
  is_mime_type_supported :: "string \<Rightarrow> bool"
  mkstemp :: "(string \<times> bytes) list \<Rightarrow> exn + string"
  async_task :: "consume_file list \<Rightarrow> consume_file \<Rightarrow> exn option"
  get_or_create :: "string \<Rightarrow> exn + Correspondent"
  str_lower :: "string \<Rightarrow> string"
  sanitize_filename :: "string \<Rightarrow> string"
  splitext_basename :: "string \<Rightarrow> string"
  rules :: "MailAccount \<Rightarrow> MailRule list"

definition log :: "level \<Rightarrow> log_msg \<Rightarrow> world \<Rightarrow> world" where
  "log l m w = w\<lparr>logged := logged w @ [(l, m)]\<rparr>"

text \<open>Sending a command: the server's answer depends on the commands before it.\<close>

definition issue :: "env \<Rightarrow> imap_cmd \<Rightarrow> world \<Rightarrow> exn option \<times> world" where
  "issue E c w = (imap_r E (imap w) c, w\<lparr>imap := imap w @ [c]\<rparr>)"

section \<open>Post-consume effects\<close>

fun uid_store :: "env \<Rightarrow> string option \<Rightarrow> string list \<Rightarrow> world \<Rightarrow> exn option \<times> world" where
  "uid_store E keyword [] w = (None, w)"
| "uid_store E keyword (u # message_uids) w =
     (case issue E (Uid ''STORE'' u ''X-GM-LABELS'' keyword) w of
        (Some e, w') \<Rightarrow> (Some e, w')
      | (None, w') \<Rightarrow> uid_store E keyword message_uids w')"

fun post_consume ::
  "env \<Rightarrow> RuleAction \<Rightarrow> MailBox \<Rightarrow> string list \<Rightarrow> string option \<Rightarrow> world \<Rightarrow> exn option \<times> world"
where
  "post_consume E DeleteMailAction M message_uids parameter w =
     issue E (Delete message_uids) w"
| "post_consume E MarkReadMailAction M message_uids parameter w =
     issue E (Flag message_uids [SEEN] True) w"
| "post_consume E MoveMailAction M message_uids parameter w =
     issue E (Move message_uids parameter) w"
| "post_consume E FlagMailAction M message_uids parameter w =
     issue E (Flag message_uids [FLAGGED] True) w"
| "post_consume E (TagMailAction keyword) M message_uids parameter w =
     (if re_search_gmail (host M) then uid_store E keyword message_uids w
      else issue E (Flag message_uids [Keyword keyword] True) w)"

definition construct :: "env \<Rightarrow> MailBox \<Rightarrow> exn + MailBox" where
  "construct E M = (case connect_r E M of Some e \<Rightarrow> Inl e | None \<Rightarrow> Inr M)"

definition get_mailbox :: "env \<Rightarrow> string \<Rightarrow> nat \<Rightarrow> ImapSecurity \<Rightarrow> exn + MailBox" where
  "get_mailbox E server port security =
     (if security = NONE then construct E (MailBoxUnencrypted server port)
      else if security = STARTTLS then construct E (MailBoxTls server port)
      else if security = SSL then construct E (MailBoxSSL server port)
      else Inl NotImplementedError)"

section \<open>The attachment pipeline\<close>

definition correspondent_from_name ::
  "env \<Rightarrow> string \<Rightarrow> world \<Rightarrow> (exn + Correspondent option) \<times> world" where
  "correspondent_from_name E name w =
     (case get_or_create E name of
        Inr c \<Rightarrow> (Inr (Some c), w)
      | Inl e \<Rightarrow>
          (if e = DatabaseError
           then (Inr None, log Error (ErrorRetrievingCorrespondent name e) w)
           else (Inl e, w)))"

definition get_title :: "env \<Rightarrow> MailMessage \<Rightarrow> MailAttachment \<Rightarrow> MailRule \<Rightarrow> exn + string" where
  "get_title E message att rule =
     (if assign_title_from rule = FROM_SUBJECT then Inr (subject message)
      else if assign_title_from rule = FROM_FILENAME
      then Inr (splitext_basename E (filename att))
      else Inl NotImplementedError)"

definition get_correspondent ::
  "env \<Rightarrow> MailMessage \<Rightarrow> MailRule \<Rightarrow> world \<Rightarrow> (exn + Correspondent option) \<times> world" where
  "get_correspondent E message rule w =
     (let c_from = assign_correspondent_from rule in
      if c_from = FROM_NOTHING then (Inr None, w)
      else if c_from = FROM_EMAIL then correspondent_from_name E (from' message) w
      else if c_from = FROM_NAME
      then (case from_values message of
              Some name \<Rightarrow>
                (if length name > 0 then correspondent_from_name E name w
                 else correspondent_from_name E (from' message) w)
            | None \<Rightarrow> correspondent_from_name E (from' message) w)
      else if c_from = FROM_CUSTOM then (Inr (assign_correspondent rule), w)
      else (Inl NotImplementedError, w))"

text \<open>
  The body of the loop over \<open>message.attachments\<close> for one attachment, in two parts:
  \<open>dispatch\<close> is the body from \<open>title = self.get_title(...)\<close> on, and
  \<open>consume_attachment\<close> the two filters before it. The result is what the pass adds to
  \<open>processed_attachments\<close>: 0 after a \<open>continue\<close> or a skip, 1 after a dispatch.
\<close>

definition dispatch ::
  "env \<Rightarrow> MailRule \<Rightarrow> MailMessage \<Rightarrow> Correspondent option \<Rightarrow> nat list \<Rightarrow> DocumentType option
     \<Rightarrow> MailAttachment \<Rightarrow> world \<Rightarrow> (exn + nat) \<times> world" where
  "dispatch E rule message correspondent tag_ids doc_type att w =
     (case get_title E message att rule of
        Inl e \<Rightarrow> (Inl e, w)
      | Inr title \<Rightarrow>
          (case from_buffer E (payload att) of
             Inl e \<Rightarrow> (Inl e, w)
           | Inr mime_type \<Rightarrow>
               (if is_mime_type_supported E mime_type
                then
                  (case mkstemp E (files w) of
                     Inl e \<Rightarrow> (Inl e, w)
                   | Inr temp_filename \<Rightarrow>
                       (let w1 = w\<lparr>files := files w @ [(temp_filename, payload att)]\<rparr>;
                            w2 = log Info (ConsumingAttachment (rule_name rule) (filename att)
                                             (subject message) (from' message)) w1;
                            task = \<lparr>path = temp_filename,
                                    override_filename = sanitize_filename E (filename att),
                                    override_title = title,
                                    override_correspondent_id =
                                      (case correspondent of
                                         Some c \<Rightarrow> Some (correspondent_id c)
                                       | None \<Rightarrow> None),
                                    override_document_type_id =
                                      (case doc_type of
                                         Some d \<Rightarrow> Some (document_type_id d)
                                       | None \<Rightarrow> None),
                                    override_tag_ids = tag_ids,
                                    task_name = take 100 (filename att)\<rparr>
                        in case async_task E (tasks w2) task of
                             Some e \<Rightarrow> (Inl e, w2)
                           | None \<Rightarrow> (Inr 1, w2\<lparr>tasks := tasks w2 @ [task]\<rparr>)))
                else (Inr 0, log Debug (SkippingMimeType (rule_name rule) (filename att)
                                          mime_type) w))))"

definition consume_attachment ::
  "env \<Rightarrow> MailRule \<Rightarrow> MailMessage \<Rightarrow> Correspondent option \<Rightarrow> nat list \<Rightarrow> DocumentType option
     \<Rightarrow> MailAttachment \<Rightarrow> world \<Rightarrow> (exn + nat) \<times> world" where
  "consume_attachment E rule message correspondent tag_ids doc_type att w =
     (if content_disposition att \<noteq> ''attachment'' \<and> attachment_type rule = ATTACHMENTS_ONLY
      then (Inr 0, log Debug (SkippingDisposition (rule_name rule) (filename att)
                                (content_disposition att)) w)
      else if truthy (filter_attachment_filename rule)
              \<and> \<not> fnmatch (str_lower E (filename att))
                           (str_lower E (the (filter_attachment_filename rule)))
      then (Inr 0, w)
      else dispatch E rule message correspondent tag_ids doc_type att w)"

fun consume_attachments ::
  "env \<Rightarrow> MailRule \<Rightarrow> MailMessage \<Rightarrow> Correspondent option \<Rightarrow> nat list \<Rightarrow> DocumentType option
     \<Rightarrow> MailAttachment list \<Rightarrow> nat \<Rightarrow> world \<Rightarrow> (exn + nat) \<times> world" where
  "consume_attachments E rule message correspondent tag_ids doc_type [] processed_attachments w =
     (Inr processed_attachments, w)"
| "consume_attachments E rule message correspondent tag_ids doc_type (att # atts)
     processed_attachments w =
     (case consume_attachment E rule message correspondent tag_ids doc_type att w of
        (Inl e, w') \<Rightarrow> (Inl e, w')
      | (Inr k, w') \<Rightarrow>
          consume_attachments E rule message correspondent tag_ids doc_type atts
            (processed_attachments + k) w')"

definition handle_message ::
  "env \<Rightarrow> MailMessage \<Rightarrow> MailRule \<Rightarrow> world \<Rightarrow> (exn + nat) \<times> world" where
  "handle_message E message rule w =
     (if attachments message = [] then (Inr 0, w)
      else
        (let w1 = log Debug (ProcessingMail (rule_name rule) (subject message) (from' message)
                               (length (attachments message))) w
         in case get_correspondent E message rule w1 of
              (Inl e, w2) \<Rightarrow> (Inl e, w2)
            | (Inr correspondent, w2) \<Rightarrow>
                (let tag_ids = assign_tags rule;
                     doc_type = assign_document_type rule
                 in consume_attachments E rule message correspondent tag_ids doc_type
                      (attachments message) 0 w2)))"

section \<open>Processing one rule\<close>

text \<open>
  The loop over the fetched messages. Its state is \<open>post_consume_messages\<close>,
  \<open>mails_processed\<close> and \<open>total_processed_files\<close>; a message whose handling raises
  is logged and changes none of them.
\<close>

fun handle_messages ::
  "env \<Rightarrow> MailRule \<Rightarrow> MailMessage list \<Rightarrow> string list \<times> nat \<times> nat \<Rightarrow> world
     \<Rightarrow> (string list \<times> nat \<times> nat) \<times> world" where
  "handle_messages E rule [] st w = (st, w)"
| "handle_messages E rule (message # messages)
     (post_consume_messages, mails_processed, total_processed_files) w =
     (case handle_message E message rule w of
        (Inr processed_files, w') \<Rightarrow>
          handle_messages E rule messages
            (if processed_files > 0 then post_consume_messages @ [uid message]
             else post_consume_messages,
             mails_processed + 1,
             total_processed_files + processed_files) w'
      | (Inl e, w') \<Rightarrow>
          handle_messages E rule messages
            (post_consume_messages, mails_processed, total_processed_files)
            (log Error (ErrorProcessingMail (rule_name rule) (uid message) e) w'))"

text \<open>The best-effort folder listing after a failed folder selection.\<close>

definition list_folders :: "env \<Rightarrow> world \<Rightarrow> world" where
  "list_folders E w =
     (let w1 = w\<lparr>imap := imap w @ [FolderList]\<rparr> in
      case folder_list_r E (imap w) of
        Inr names \<Rightarrow> foldl (\<lambda>w' name. log Info (LocatedFolder name) w') w1 names
      | Inl e \<Rightarrow> log Error (FolderListingFailed e) w1)"

text \<open>
  The end of a rule pass (lines 320 to 340): the two log entries and the post-consume
  effect of the rule's action on the recorded uids.
\<close>

fun run_actions ::
  "env \<Rightarrow> MailBox \<Rightarrow> MailRule \<Rightarrow> string list \<times> nat \<times> nat \<Rightarrow> world \<Rightarrow> (exn + nat) \<times> world"
where
  "run_actions E M rule (post_consume_messages, mails_processed, total_processed_files) w =
     (let w5 = log Debug (ProcessedMails (rule_name rule) mails_processed) w;
          w6 = log Debug (RunningActions (rule_name rule) (length post_consume_messages)) w5
      in case get_rule_action rule of
           Inl e \<Rightarrow> (Inl (MailError (ErrPostConsume (rule_name rule)) e), w6)
         | Inr a \<Rightarrow>
             (case post_consume E a M post_consume_messages (action_parameter rule) w6 of
                (Some e, w7) \<Rightarrow> (Inl (MailError (ErrPostConsume (rule_name rule)) e), w7)
              | (None, w7) \<Rightarrow> (Inr total_processed_files, w7)))"

text \<open>
  An exception of the criteria (lines 277 to 282) or of the iteration over the fetched
  messages is outside every \<open>try\<close> of \<open>handle_mail_rule\<close> and leaves it as it is;
  after the latter the messages yielded so far have been handled, and the post-consume
  effect is not run.
\<close>

definition handle_mail_rule ::
  "date \<Rightarrow> env \<Rightarrow> MailBox \<Rightarrow> MailRule \<Rightarrow> world \<Rightarrow> (exn + nat) \<times> world" where
  "handle_mail_rule today E M rule w =
     (let w0 = log Debug (SelectingFolder (rule_name rule) (folder rule)) w in
      case issue E (FolderSet (folder rule)) w0 of
        (Some err, w1) \<Rightarrow>
          (if err = MailboxFolderSelectError
           then
             (let w2 = log Error (UnableToAccessFolder (folder rule)) w1;
                  w3 = list_folders E w2
              in (Inl (MailError (ErrFolder (rule_name rule) (folder rule)
                                    (account_name (account rule))) err), w3))
           else (Inl err, w1))
      | (None, w1) \<Rightarrow>
          (case make_criterias today rule of
             Inl e \<Rightarrow> (Inl e, w1)
           | Inr criterias \<Rightarrow>
               (case criterias_imap criterias of
                  Inl e \<Rightarrow> (Inl e, w1)
                | Inr q \<Rightarrow>
                    (let w2 = log Debug (Searching (rule_name rule) q) w1;
                         fetch = Fetch q False (character_set (account rule));
                         w3 = w2\<lparr>imap := imap w2 @ [fetch]\<rparr>
                     in case fetch_r E (imap w2) fetch of
                          Inl err \<Rightarrow>
                            (Inl (MailError (ErrFetching (rule_name rule) (folder rule)) err), w3)
                        | Inr (messages, stopped) \<Rightarrow>
                            (case handle_messages E rule messages ([], 0, 0) w3 of
                               (st, w4) \<Rightarrow>
                                 (case stopped of
                                    Some e \<Rightarrow> (Inl e, w4)
                                  | None \<Rightarrow> run_actions E M rule st w4))))))"

section \<open>Processing one account\<close>

text \<open>The fallback of the login: SASL PLAIN, then the selection of the inbox.\<close>

definition auth_plain :: "env \<Rightarrow> MailAccount \<Rightarrow> world \<Rightarrow> exn option \<times> world" where
  "auth_plain E acct w =
     (case encode_utf8 (username acct) of
        Inl e \<Rightarrow> (Some e, w)
      | Inr u \<Rightarrow>
          (case encode_utf8 (password acct) of
             Inl e \<Rightarrow> (Some e, w)
           | Inr p \<Rightarrow>
               (let encoded = [0] @ u @ [0] @ p in
                case issue E (Authenticate ''PLAIN'' encoded) w of
                  (Some e, w1) \<Rightarrow> (Some e, w1)
                | (None, w1) \<Rightarrow> issue E (FolderSet ''INBOX'') w1)))"

definition login :: "env \<Rightarrow> MailAccount \<Rightarrow> world \<Rightarrow> exn option \<times> world" where
  "login E acct w =
     (case issue E (Login (username acct) (password acct)) w of
        (None, w1) \<Rightarrow> (None, w1)
      | (Some e, w1) \<Rightarrow>
          (if e = UnicodeEncodeError
           then
             (let w2 = log Debug FallingBackToPlain w1 in
              case auth_plain E acct w2 of
                (None, w3) \<Rightarrow> (None, w3)
              | (Some err, w3) \<Rightarrow>
                  (Some (MailError (ErrAuthenticating (account_name acct)) err),
                   log Error UnableToAuthenticatePlain w3))
           else
             (Some (MailError (ErrAuthenticating (account_name acct)) e),
              log Error (ErrorAuthenticating (account_name acct) e) w1)))"

text \<open>
  The loop over the rules: an exception of a rule is logged, and the loop goes on with
  the next rule.
\<close>

fun handle_rules ::
  "date \<Rightarrow> env \<Rightarrow> MailBox \<Rightarrow> MailRule list \<Rightarrow> nat \<Rightarrow> world \<Rightarrow> nat \<times> world" where
  "handle_rules today E M [] total_processed_files w = (total_processed_files, w)"
| "handle_rules today E M (rule # rs) total_processed_files w =
     (case handle_mail_rule today E M rule w of
        (Inr n, w') \<Rightarrow> handle_rules today E M rs (total_processed_files + n) w'
      | (Inl e, w') \<Rightarrow>
          handle_rules today E M rs total_processed_files
            (log Error (ErrorProcessingRule (rule_name rule) e) w'))"

text \<open>
  The body of the \<open>with\<close> block: the exception that leaves it, if any, and
  \<open>total_processed_files\<close> at that moment.
\<close>

definition session :: "date \<Rightarrow> env \<Rightarrow> MailBox \<Rightarrow> MailAccount \<Rightarrow> world \<Rightarrow> exn option \<times> nat \<times> world" where
  "session today E M acct w =
     (case login E acct w of
        (Some e, w1) \<Rightarrow> (Some e, 0, w1)
      | (None, w1) \<Rightarrow>
          (let w2 = log Debug (ProcessingRules (account_name acct)
                                 (length (rules E acct))) w1
           in case handle_rules today E M (sort_key order (rules E acct)) 0 w2 of
                (total_processed_files, w3) \<Rightarrow> (None, total_processed_files, w3)))"

text \<open>
  The \<open>with\<close> block releases the session on every path out of it. An exception of the
  release replaces the one that left the block, if any, and is then handled like any
  other exception that is not a \<open>MailError\<close>.
\<close>

definition handle_mail_account ::
  "date \<Rightarrow> env \<Rightarrow> MailAccount \<Rightarrow> world \<Rightarrow> (exn + nat) \<times> world" where
  "handle_mail_account today E acct w =
     (let w0 = log Debug (ProcessingAccount (account_name acct)) w;
          (raised, total_processed_files, w') =
            (case get_mailbox E (imap_server acct) (imap_port acct)
                    (imap_security acct) of
               Inl e \<Rightarrow> (Some e, 0, w0)
             | Inr M \<Rightarrow>
                 (case session today E M acct w0 of
                    (r, n, w1) \<Rightarrow>
                      (case logout_r E (imap w1) of
                         None \<Rightarrow> (r, n, w1\<lparr>imap := imap w1 @ [Logout]\<rparr>)
                       | Some msg \<Rightarrow>
                           (Some (OtherError msg), n, w1\<lparr>imap := imap w1 @ [Logout]\<rparr>))))
      in case raised of
           None \<Rightarrow> (Inr total_processed_files, w')
         | Some e \<Rightarrow>
             (if is_MailError e then (Inl e, w')
              else (Inr total_processed_files,
                    log Error (ErrorRetrievingMailbox (account_name acct) e) w')))"

section \<open>The outcomes of a pass\<close>

text \<open>
  What the two loops meet, in order: the outcome of \<open>handle_message\<close> for each fetched
  message and of \<open>handle_mail_rule\<close> for each rule, each in the world the loop has
  reached by then. An outcome that is an exception counts no file.
\<close>

fun counted :: "exn + nat \<Rightarrow> nat" where
  "counted (Inr n) = n"
| "counted (Inl e) = 0"

fun message_results :: "env \<Rightarrow> MailRule \<Rightarrow> MailMessage list \<Rightarrow> world \<Rightarrow> (exn + nat) list" where
  "message_results E rule [] w = []"
| "message_results E rule (message # messages) w =
     (case handle_message E message rule w of
        (Inr n, w') \<Rightarrow> Inr n # message_results E rule messages w'
      | (Inl e, w') \<Rightarrow>
          Inl e # message_results E rule messages
                    (log Error (ErrorProcessingMail (rule_name rule) (uid message) e) w'))"

fun rule_results :: "date \<Rightarrow> env \<Rightarrow> MailBox \<Rightarrow> MailRule list \<Rightarrow> world \<Rightarrow> (exn + nat) list" where
  "rule_results today E M [] w = []"
| "rule_results today E M (rule # rs) w =
     (case handle_mail_rule today E M rule w of
        (Inr n, w') \<Rightarrow> Inr n # rule_results today E M rs w'
      | (Inl e, w') \<Rightarrow>
          Inl e # rule_results today E M rs
                    (log Error (ErrorProcessingRule (rule_name rule) e) w'))"

text \<open>
  The world in which the loop over the fetched messages starts, when the folder was
  selected and the query \<open>q\<close> built: the two log entries and the two commands of
  \<open>handle_mail_rule\<close> so far.
\<close>

definition at_fetch :: "MailRule \<Rightarrow> query \<Rightarrow> world \<Rightarrow> world" where
  "at_fetch rule q w =
     (log Debug (Searching (rule_name rule) q)
        (log Debug (SelectingFolder (rule_name rule) (folder rule)) w))
     \<lparr>imap := imap w @ [FolderSet (folder rule),
                         Fetch q False (character_set (account rule))]\<rparr>"


text \<open>A world grows: what was sent, written, queued and logged stays, in its order.\<close>

definition grows :: "world \<Rightarrow> world \<Rightarrow> bool" where
  "grows w w' =
     (prefix (imap w) (imap w') \<and> prefix (files w) (files w')
      \<and> prefix (tasks w) (tasks w') \<and> prefix (logged w) (logged w'))"

text \<open>
  An attachment that the loop body skips: by its disposition, by the filename filter, or
  because the sniffed mime type is not supported.
\<close>

definition skipped :: "env \<Rightarrow> MailRule \<Rightarrow> MailAttachment \<Rightarrow> bool" where
  "skipped E rule att =
     ((content_disposition att \<noteq> ''attachment'' \<and> attachment_type rule = ATTACHMENTS_ONLY)
      \<or> (truthy (filter_attachment_filename rule)
           \<and> \<not> fnmatch (str_lower E (filename att))
                        (str_lower E (the (filter_attachment_filename rule))))
      \<or> (\<exists>mime_type. from_buffer E (payload att) = Inr mime_type
            \<and> \<not> is_mime_type_supported E mime_type))"

section \<open>Concrete inputs\<close>

text \<open>
  An account on a Gmail host with one rule that tags invoices, a world in which nothing
  has happened yet, and an outside in which every call succeeds: the server returns the
  two messages of \<open>example_messages\<close> to every fetch, and a payload that starts with
  \<open>%PDF\<close> sniffs as \<open>application/pdf\<close>, the only supported type.
\<close>

definition example_account :: MailAccount where
  "example_account =
     \<lparr>account_name = ''home'', imap_server = ''imap.gmail.com'', imap_port = 993,
      imap_security = SSL, username = [117, 115, 101, 114], password = [112, 228, 115, 115],
      character_set = ''UTF-8''\<rparr>"

definition example_rule :: MailRule where
  "example_rule =
     \<lparr>rule_name = ''invoices'', account = example_account, folder = ''INBOX'', order = 1,
      maximum_age = 30, filter_from = Some ''billing@example.com'', filter_subject = Some [],
      filter_body = None, filter_attachment_filename = Some ''*.PDF'',
      attachment_type = ATTACHMENTS_ONLY, assign_title_from = FROM_SUBJECT,
      assign_correspondent_from = FROM_NOTHING, assign_correspondent = None,
      assign_document_type = None, assign_tags = [3], action = TAG,
      action_parameter = Some ''Invoices''\<rparr>"

definition pdf_payload :: bytes where
  "pdf_payload = [37, 80, 68, 70, 45, 49, 46, 52]"

definition invoice_pdf :: MailAttachment where
  "invoice_pdf =
     \<lparr>filename = ''invoice.pdf'', content_disposition = ''attachment'',
      content_type = ''application/octet-stream'', payload = pdf_payload\<rparr>"

definition example_messages :: "MailMessage list" where
  "example_messages =
     [\<lparr>uid = ''7'', subject = ''Your invoice'', from' = ''billing@example.com'',
       from_values = None, attachments = [invoice_pdf]\<rparr>,
      \<lparr>uid = ''8'', subject = ''Hello'', from' = ''billing@example.com'',
       from_values = None, attachments = []\<rparr>]"

definition sniff :: "bytes \<Rightarrow> exn + string" where
  "sniff p = (if take 4 p = [37, 80, 68, 70] then Inr ''application/pdf''
              else Inr ''application/octet-stream'')"

definition example_env :: env where
  "example_env =
     \<lparr>connect_r = (\<lambda>M. None),
      imap_r = (\<lambda>tr c. None),
      folder_list_r = (\<lambda>tr. Inr [''INBOX'']),
      fetch_r = (\<lambda>tr c. Inr (example_messages, None)),
      logout_r = (\<lambda>tr. None),
      from_buffer = sniff,
      is_mime_type_supported = (\<lambda>t. t = ''application/pdf''),
      mkstemp = (\<lambda>fs. Inr (''paperless-mail-'' @ replicate (length fs) CHR ''x'')),
      async_task = (\<lambda>q t. None),
      get_or_create = (\<lambda>n. Inr \<lparr>correspondent_id = 1, correspondent_name = n\<rparr>),
      str_lower = ascii_lower,
      sanitize_filename = (\<lambda>f. f),
      splitext_basename = (\<lambda>f. f),
      rules = (\<lambda>a. [example_rule])\<rparr>"

definition empty_world :: world where
  "empty_world = \<lparr>imap = [], files = [], tasks = [], logged = []\<rparr>"

text \<open>
  A rule that marks mail as read, a message with two PDF attachments and one with a text
  attachment, and an outside whose scratch directory has room for one file only.
\<close>

definition mark_read_rule :: MailRule where
  "mark_read_rule = example_rule\<lparr>action := MARK_READ, action_parameter := None\<rparr>"

definition two_invoices :: MailMessage where
  "two_invoices =
     \<lparr>uid = ''7'', subject = ''Your invoices'', from' = ''billing@example.com'',
      from_values = None,
      attachments = [invoice_pdf, invoice_pdf\<lparr>filename := ''second.pdf''\<rparr>]\<rparr>"

definition notes_message :: MailMessage where
  "notes_message =
     \<lparr>uid = ''9'', subject = ''Notes'', from' = ''billing@example.com'', from_values = None,
      attachments = [\<lparr>filename = ''notes.txt'', content_disposition = ''attachment'',
                      content_type = ''text/plain'', payload = [104, 105]\<rparr>]\<rparr>"

definition full_disk_env :: env where
  "full_disk_env =
     example_env
       \<lparr>fetch_r := (\<lambda>tr c. Inr ([two_invoices], None)),
        mkstemp := (\<lambda>fs. if fs = [] then Inr ''paperless-mail-''
                          else Inl (OtherError ''No space left on device''))\<rparr>"

text \<open>
  A server whose standard login cannot encode the credentials, one that rejects the
  login, and a host that cannot be reached.
\<close>

definition ascii_login_env :: env where
  "ascii_login_env =
     example_env
       \<lparr>imap_r := (\<lambda>tr c. case c of Login u p \<Rightarrow> Some UnicodeEncodeError | _ \<Rightarrow> None)\<rparr>"

definition rejecting_env :: env where
  "rejecting_env =
     example_env
       \<lparr>imap_r := (\<lambda>tr c. case c of Login u p \<Rightarrow> Some (OtherError ''AUTHENTICATIONFAILED'')
                                    | _ \<Rightarrow> None)\<rparr>"




text \<open>
  An account with two rules, the first of which (by its order) names a folder that the
  server does not have; and a server that refuses to set flags.
\<close>

definition archive_rule :: MailRule where
  "archive_rule = example_rule\<lparr>rule_name := ''archive'', folder := ''Archive'', order := 0\<rparr>"

definition two_rules_env :: env where
  "two_rules_env =
     example_env
       \<lparr>imap_r := (\<lambda>tr c. case c of
                             FolderSet f \<Rightarrow>
                               if f = ''Archive'' then Some MailboxFolderSelectError else None
                           | _ \<Rightarrow> None),
        rules := (\<lambda>a. [example_rule, archive_rule])\<rparr>"

definition read_only_env :: env where
  "read_only_env =
     example_env
       \<lparr>imap_r := (\<lambda>tr c. case c of
                             Flag us fs v \<Rightarrow> Some (OtherError ''read-only mailbox'')
                           | _ \<Rightarrow> None),
        rules := (\<lambda>a. [mark_read_rule])\<rparr>"

section \<open>The rule actions and the criteria\<close>

lemma get_rule_action_total:
  "get_rule_action rule =
     Inr (case action rule of
            DELETE \<Rightarrow> DeleteMailAction
          | MOVE \<Rightarrow> MoveMailAction
          | MARK_READ \<Rightarrow> MarkReadMailAction
          | FLAG \<Rightarrow> FlagMailAction
          | TAG \<Rightarrow> TagMailAction (action_parameter rule))"
  by (cases "action rule") (simp_all add: get_rule_action_def)

section \<open>What each step leaves of the world\<close>

lemma log_frame [simp]:
  "imap (log l m w) = imap w" "files (log l m w) = files w" "tasks (log l m w) = tasks w"
  "logged (log l m w) = logged w @ [(l, m)]"
  by (simp_all add: log_def)

lemma issue_frame:
  "issue E c w = (r, w') \<Longrightarrow>
     imap w' = imap w @ [c] \<and> files w' = files w \<and> tasks w' = tasks w \<and> logged w' = logged w
     \<and> r = imap_r E (imap w) c"
  by (auto simp: issue_def)

lemma correspondent_from_name_imap:
  "correspondent_from_name E name w = (r, w') \<Longrightarrow> imap w' = imap w"
  by (auto simp: correspondent_from_name_def split: sum.splits if_splits)

lemma get_correspondent_imap:
  "get_correspondent E message rule w = (r, w') \<Longrightarrow> imap w' = imap w"
  by (auto simp: get_correspondent_def Let_def dest: correspondent_from_name_imap
           split: if_splits option.splits)

lemma dispatch_imap:
  "dispatch E rule message c t d att w = (r, w') \<Longrightarrow> imap w' = imap w"
  by (auto simp: dispatch_def Let_def split: if_splits sum.splits option.splits)

lemma consume_attachment_imap:
  "consume_attachment E rule message c t d att w = (r, w') \<Longrightarrow> imap w' = imap w"
  by (auto simp: consume_attachment_def dest: dispatch_imap split: if_splits)

lemma consume_attachments_imap:
  "consume_attachments E rule message c t d atts n w = (r, w') \<Longrightarrow> imap w' = imap w"
proof (induction atts arbitrary: n w)
  case Nil
  then show ?case by simp
next
  case (Cons att atts)
  obtain r1 w1 where s: "consume_attachment E rule message c t d att w = (r1, w1)"
    by (cases "consume_attachment E rule message c t d att w")
  have i: "imap w1 = imap w" using consume_attachment_imap [OF s] .
  show ?case
  proof (cases r1)
    case (Inl e)
    with Cons.prems s i show ?thesis by simp
  next
    case (Inr k)
    with Cons.prems s have "consume_attachments E rule message c t d atts (n + k) w1 = (r, w')"
      by simp
    from Cons.IH [OF this] i show ?thesis by simp
  qed
qed

lemma handle_message_imap:
  "handle_message E message rule w = (r, w') \<Longrightarrow> imap w' = imap w"
  by (auto simp: handle_message_def Let_def
           dest!: get_correspondent_imap consume_attachments_imap
           split: if_splits prod.splits sum.splits)

lemma handle_messages_imap:
  "handle_messages E rule messages st w = (st', w') \<Longrightarrow> imap w' = imap w"
proof (induction messages arbitrary: st w)
  case Nil
  then show ?case by simp
next
  case (Cons message messages)
  obtain pcm mp tot where st: "st = (pcm, mp, tot)" by (cases st)
  obtain r1 w1 where s: "handle_message E message rule w = (r1, w1)"
    by (cases "handle_message E message rule w")
  have i: "imap w1 = imap w" using handle_message_imap [OF s] .
  show ?case
  proof (cases r1)
    case (Inl e)
    with Cons.prems s st have
      "handle_messages E rule messages (pcm, mp, tot)
         (log Error (ErrorProcessingMail (rule_name rule) (uid message) e) w1) = (st', w')"
      by simp
    from Cons.IH [OF this] i show ?thesis by simp
  next
    case (Inr k)
    with Cons.prems s st have
      "handle_messages E rule messages
         (if k > 0 then pcm @ [uid message] else pcm, mp + 1, tot + k) w1 = (st', w')"
      by simp
    from Cons.IH [OF this] i show ?thesis by simp
  qed
qed

lemma uid_store_imap:
  "uid_store E keyword uids w = (r, w') \<Longrightarrow>
     \<exists>n \<le> length uids. imap w' = imap w @ map (\<lambda>u. Uid ''STORE'' u ''X-GM-LABELS'' keyword) (take n uids)
        \<and> (r = None \<longrightarrow> n = length uids)"
proof (induction uids arbitrary: w)
  case Nil
  then show ?case by simp
next
  case (Cons u uids)
  obtain r1 w1 where s: "issue E (Uid ''STORE'' u ''X-GM-LABELS'' keyword) w = (r1, w1)"
    by (cases "issue E (Uid ''STORE'' u ''X-GM-LABELS'' keyword) w")
  have i: "imap w1 = imap w @ [Uid ''STORE'' u ''X-GM-LABELS'' keyword]"
    using issue_frame [OF s] by simp
  show ?case
  proof (cases r1)
    case None
    with Cons.prems s have "uid_store E keyword uids w1 = (r, w')" by simp
    from Cons.IH [OF this] obtain n where
      n: "n \<le> length uids"
         "imap w' = imap w1 @ map (\<lambda>u. Uid ''STORE'' u ''X-GM-LABELS'' keyword) (take n uids)"
         "r = None \<longrightarrow> n = length uids"
      by blast
    with i show ?thesis by (intro exI [of _ "Suc n"]) simp
  next
    case (Some e)
    with Cons.prems s i show ?thesis by (intro exI [of _ "Suc 0"]) auto
  qed
qed

lemma post_consume_imap:
  "post_consume E a M uids parameter w = (r, w') \<Longrightarrow> \<exists>cs. imap w' = imap w @ cs"
  by (cases a) (auto dest!: issue_frame uid_store_imap split: if_splits)

lemma run_actions_imap:
  "run_actions E M rule st w = (r, w') \<Longrightarrow> \<exists>cs. imap w' = imap w @ cs"
  by (cases st)
     (auto simp: Let_def dest!: post_consume_imap split: sum.splits prod.splits option.splits)

lemma handle_mail_rule_at_fetch:
  assumes sel: "imap_r E (imap w) (FolderSet (folder rule)) = None"
    and crit: "make_criterias today rule = Inr m"
    and query: "criterias_imap m = Inr q"
  shows "handle_mail_rule today E M rule w =
           (case fetch_r E (imap w @ [FolderSet (folder rule)])
                   (Fetch q False (character_set (account rule))) of
              Inl err \<Rightarrow>
                (Inl (MailError (ErrFetching (rule_name rule) (folder rule)) err),
                 at_fetch rule q w)
            | Inr (messages, stopped) \<Rightarrow>
                (case handle_messages E rule messages ([], 0, 0) (at_fetch rule q w) of
                   (st, w4) \<Rightarrow>
                     (case stopped of
                        Some e \<Rightarrow> (Inl e, w4)
                      | None \<Rightarrow> run_actions E M rule st w4)))"
proof -
  let ?w2 = "log Debug (Searching (rule_name rule) q)
               ((log Debug (SelectingFolder (rule_name rule) (folder rule)) w)
                  \<lparr>imap := imap w @ [FolderSet (folder rule)]\<rparr>)"
  have e: "?w2\<lparr>imap := imap ?w2 @ [Fetch q False (character_set (account rule))]\<rparr>
           = at_fetch rule q w"
    by (simp add: at_fetch_def log_def)
  show ?thesis
    using sel crit query
    unfolding handle_mail_rule_def issue_def Let_def at_fetch_def log_def
    by (simp cong: sum.case_cong prod.case_cong option.case_cong)
qed

lemma at_fetch_frame [simp]:
  "imap (at_fetch rule q w) =
     imap w @ [FolderSet (folder rule), Fetch q False (character_set (account rule))]"
  "tasks (at_fetch rule q w) = tasks w" "files (at_fetch rule q w) = files w"
  by (simp_all add: at_fetch_def)

lemma handle_mail_rule_fetch:
  assumes sel: "imap_r E (imap w) (FolderSet (folder rule)) = None"
    and crit: "make_criterias today rule = Inr m"
    and query: "criterias_imap m = Inr q"
  shows "\<exists>cs. imap (snd (handle_mail_rule today E M rule w)) =
           imap w @ [FolderSet (folder rule),
                     Fetch q False (character_set (account rule))] @ cs"
proof -
  let ?f = "fetch_r E (imap w @ [FolderSet (folder rule)])
              (Fetch q False (character_set (account rule)))"
  note h = handle_mail_rule_at_fetch [OF sel crit query, of M]
  show ?thesis
  proof (cases ?f)
    case (Inl err)
    with h show ?thesis by simp
  next
    case (Inr p)
    obtain messages stopped where p: "p = (messages, stopped)" by (cases p)
    obtain st w4 where
      hm: "handle_messages E rule messages ([], 0, 0) (at_fetch rule q w) = (st, w4)"
      by (cases "handle_messages E rule messages ([], 0, 0) (at_fetch rule q w)")
    have i4: "imap w4 = imap (at_fetch rule q w)"
      using handle_messages_imap [OF hm] .
    show ?thesis
    proof (cases stopped)
      case (Some e)
      with h Inr p hm i4 show ?thesis by simp
    next
      case None
      obtain r w' where ra: "run_actions E M rule st w4 = (r, w')"
        by (cases "run_actions E M rule st w4")
      from run_actions_imap [OF ra] obtain cs where "imap w' = imap w4 @ cs" by blast
      with h Inr p hm i4 None ra show ?thesis by simp
    qed
  qed
qed

section \<open>The world only grows\<close>

lemma grows_refl [simp]: "grows w w"
  by (simp add: grows_def)

lemma grows_trans: "grows a b \<Longrightarrow> grows b c \<Longrightarrow> grows a c"
  unfolding grows_def by (meson prefix_order.trans)

lemma grows_log: "grows w w' \<Longrightarrow> grows w (log l m w')"
  by (auto simp: grows_def log_def prefix_def)

lemma grows_imap: "grows w w' \<Longrightarrow> grows w (w'\<lparr>imap := imap w' @ cs\<rparr>)"
  by (auto simp: grows_def prefix_def)

lemma grows_issue: "issue E c w = (r, w') \<Longrightarrow> grows w w'"
  by (auto simp: issue_def grows_def)

lemma grows_uid_store: "uid_store E keyword uids w = (r, w') \<Longrightarrow> grows w w'"
proof (induction uids arbitrary: w)
  case Nil
  then show ?case by simp
next
  case (Cons u uids)
  obtain r1 w1 where s: "issue E (Uid ''STORE'' u ''X-GM-LABELS'' keyword) w = (r1, w1)"
    by (cases "issue E (Uid ''STORE'' u ''X-GM-LABELS'' keyword) w")
  have g: "grows w w1" using grows_issue [OF s] .
  show ?case
  proof (cases r1)
    case None
    with Cons.prems s have "uid_store E keyword uids w1 = (r, w')" by simp
    from Cons.IH [OF this] g show ?thesis by (rule grows_trans [rotated])
  next
    case (Some e)
    with Cons.prems s g show ?thesis by simp
  qed
qed

lemma grows_post_consume: "post_consume E a M uids parameter w = (r, w') \<Longrightarrow> grows w w'"
  by (cases a) (auto dest: grows_issue grows_uid_store split: if_splits)

lemma post_consume_tasks:
  "post_consume E a M uids parameter w = (r, w') \<Longrightarrow> tasks w' = tasks w \<and> files w' = files w"
proof -
  have u: "uid_store E keyword us v = (r, v') \<Longrightarrow> tasks v' = tasks v \<and> files v' = files v"
    for keyword us v v' r
    by (induction us arbitrary: v) (auto simp: issue_def split: option.splits)
  show "post_consume E a M uids parameter w = (r, w') \<Longrightarrow> tasks w' = tasks w \<and> files w' = files w"
    by (cases a) (auto simp: issue_def dest: u split: if_splits)
qed

lemma grows_dispatch: "dispatch E rule message c t d att w = (r, w') \<Longrightarrow> grows w w'"
  by (auto simp: dispatch_def Let_def grows_def log_def split: sum.splits option.splits if_splits)

lemma grows_consume_attachment:
  "consume_attachment E rule message c t d att w = (r, w') \<Longrightarrow> grows w w'"
  by (auto simp: consume_attachment_def grows_log dest: grows_dispatch split: if_splits)

lemma grows_consume_attachments:
  "consume_attachments E rule message c t d atts n w = (r, w') \<Longrightarrow> grows w w'"
proof (induction atts arbitrary: n w)
  case Nil
  then show ?case by simp
next
  case (Cons att atts)
  obtain r1 w1 where s: "consume_attachment E rule message c t d att w = (r1, w1)"
    by (cases "consume_attachment E rule message c t d att w")
  have g: "grows w w1" using grows_consume_attachment [OF s] .
  show ?case
  proof (cases r1)
    case (Inl e)
    with Cons.prems s g show ?thesis by simp
  next
    case (Inr k)
    with Cons.prems s have "consume_attachments E rule message c t d atts (n + k) w1 = (r, w')"
      by simp
    from Cons.IH [OF this] g show ?thesis by (rule grows_trans [rotated])
  qed
qed

lemma grows_correspondent_from_name:
  "correspondent_from_name E name w = (r, w') \<Longrightarrow> grows w w'"
  by (auto simp: correspondent_from_name_def grows_log split: sum.splits if_splits)

lemma grows_get_correspondent:
  "get_correspondent E message rule w = (r, w') \<Longrightarrow> grows w w'"
  by (auto simp: get_correspondent_def Let_def dest: grows_correspondent_from_name
           split: if_splits option.splits)

lemma grows_handle_message:
  "handle_message E message rule w = (r, w') \<Longrightarrow> grows w w'"
proof (cases "attachments message = []")
  case True
  assume "handle_message E message rule w = (r, w')"
  with True show ?thesis by (simp add: handle_message_def)
next
  case False
  assume h: "handle_message E message rule w = (r, w')"
  let ?w1 = "log Debug (ProcessingMail (rule_name rule) (subject message) (from' message)
                          (length (attachments message))) w"
  obtain r2 w2 where g: "get_correspondent E message rule ?w1 = (r2, w2)"
    by (cases "get_correspondent E message rule ?w1")
  have g1: "grows w ?w1" by (simp add: grows_log)
  have g2: "grows w w2" using grows_trans [OF g1 grows_get_correspondent [OF g]] .
  show ?thesis
  proof (cases r2)
    case (Inl e)
    with h False g g2 show ?thesis by (simp add: handle_message_def Let_def)
  next
    case (Inr c)
    with h False g have
      "consume_attachments E rule message c (assign_tags rule) (assign_document_type rule)
         (attachments message) 0 w2 = (r, w')"
      by (simp add: handle_message_def Let_def)
    from grows_trans [OF g2 grows_consume_attachments [OF this]] show ?thesis .
  qed
qed

lemma grows_handle_messages:
  "handle_messages E rule messages st w = (st', w') \<Longrightarrow> grows w w'"
proof (induction messages arbitrary: st w)
  case Nil
  then show ?case by simp
next
  case (Cons message messages)
  obtain pcm mp tot where st: "st = (pcm, mp, tot)" by (cases st)
  obtain r1 w1 where s: "handle_message E message rule w = (r1, w1)"
    by (cases "handle_message E message rule w")
  have g: "grows w w1" using grows_handle_message [OF s] .
  show ?case
  proof (cases r1)
    case (Inl e)
    with Cons.prems s st have
      "handle_messages E rule messages (pcm, mp, tot)
         (log Error (ErrorProcessingMail (rule_name rule) (uid message) e) w1) = (st', w')"
      by simp
    from grows_trans [OF grows_log [OF g] Cons.IH [OF this]] show ?thesis .
  next
    case (Inr k)
    with Cons.prems s st have
      "handle_messages E rule messages
         (if k > 0 then pcm @ [uid message] else pcm, mp + 1, tot + k) w1 = (st', w')"
      by simp
    from grows_trans [OF g Cons.IH [OF this]] show ?thesis .
  qed
qed

lemma grows_foldl_log:
  "grows w w' \<Longrightarrow> grows w (foldl (\<lambda>w' name. log Info (LocatedFolder name) w') w' names)"
  by (induction names arbitrary: w') (simp_all add: grows_log)

lemma grows_list_folders: "grows w w' \<Longrightarrow> grows w (list_folders E w')"
  by (auto simp: list_folders_def Let_def grows_foldl_log grows_log grows_imap split: sum.splits)

section \<open>The loop over the rules\<close>

lemma grows_run_actions: "run_actions E M rule st w = (r, w') \<Longrightarrow> grows w w'"
proof -
  assume h: "run_actions E M rule st w = (r, w')"
  obtain pcm mp tot where st: "st = (pcm, mp, tot)" by (cases st)
  let ?w6 = "log Debug (RunningActions (rule_name rule) (length pcm))
               (log Debug (ProcessedMails (rule_name rule) mp) w)"
  have g6: "grows w ?w6" by (intro grows_log grows_refl)
  show ?thesis
  proof (cases "get_rule_action rule")
    case (Inl e)
    with h st have "w' = ?w6" by (simp add: Let_def)
    with g6 show ?thesis by simp
  next
    case (Inr a)
    obtain r7 w7 where pc: "post_consume E a M pcm (action_parameter rule) ?w6 = (r7, w7)"
      by (cases "post_consume E a M pcm (action_parameter rule) ?w6")
    from h st Inr pc have "w' = w7" by (cases r7) (simp_all add: Let_def)
    with grows_trans [OF g6 grows_post_consume [OF pc]] show ?thesis by simp
  qed
qed

lemma grows_handle_mail_rule_started:
  assumes h: "handle_mail_rule today E M rule w = (r, w')"
  shows "grows ((log Debug (SelectingFolder (rule_name rule) (folder rule)) w)
                  \<lparr>imap := imap w @ [FolderSet (folder rule)]\<rparr>) w'"
proof -
  let ?w0 = "log Debug (SelectingFolder (rule_name rule) (folder rule)) w"
  let ?w1 = "?w0\<lparr>imap := imap w @ [FolderSet (folder rule)]\<rparr>"
  have i: "issue E (FolderSet (folder rule)) ?w0
             = (imap_r E (imap w) (FolderSet (folder rule)), ?w1)"
    by (simp add: issue_def)
  show ?thesis
  proof (cases "imap_r E (imap w) (FolderSet (folder rule))")
    case (Some err)
    show ?thesis
    proof (cases "err = MailboxFolderSelectError")
      case True
      with h i Some have
        "w' = list_folders E (log Error (UnableToAccessFolder (folder rule)) ?w1)"
        by (simp add: handle_mail_rule_def Let_def)
      then show ?thesis by (simp add: grows_list_folders grows_log)
    next
      case False
      with h i Some have "w' = ?w1" by (simp add: handle_mail_rule_def Let_def)
      then show ?thesis by simp
    qed
  next
    case None
    show ?thesis
    proof (cases "make_criterias today rule")
      case (Inl e)
      with h i None have "w' = ?w1" by (simp add: handle_mail_rule_def Let_def)
      then show ?thesis by simp
    next
      case (Inr m)
      show ?thesis
      proof (cases "criterias_imap m")
        case (Inl e)
        with h i None Inr have "w' = ?w1" by (simp add: handle_mail_rule_def Let_def)
        then show ?thesis by simp
      next
        case built: (Inr q)
        have g3: "grows ?w1 (at_fetch rule q w)"
          by (auto simp: grows_def at_fetch_def log_def prefix_def)
        note u = handle_mail_rule_at_fetch [OF None Inr built, of M]
        show ?thesis
        proof (cases "fetch_r E (imap w @ [FolderSet (folder rule)])
                        (Fetch q False (character_set (account rule)))")
          case (Inl err)
          with h u have "w' = at_fetch rule q w" by simp
          with g3 show ?thesis by simp
        next
          case fetched: (Inr p)
          obtain messages stopped where p: "p = (messages, stopped)" by (cases p)
          obtain st w4 where
            hm: "handle_messages E rule messages ([], 0, 0) (at_fetch rule q w) = (st, w4)"
            by (cases "handle_messages E rule messages ([], 0, 0) (at_fetch rule q w)")
          have g4: "grows ?w1 w4"
            using grows_trans [OF g3 grows_handle_messages [OF hm]] .
          show ?thesis
          proof (cases stopped)
            case (Some e)
            with h u fetched p hm have "w' = w4" by simp
            with g4 show ?thesis by simp
          next
            case None
            with h u fetched p hm have "run_actions E M rule st w4 = (r, w')" by simp
            from grows_trans [OF g4 grows_run_actions [OF this]] show ?thesis .
          qed
        qed
      qed
    qed
  qed
qed

lemma handle_mail_rule_started:
  assumes "handle_mail_rule today E M rule w = (r, w')"
  shows "\<exists>ls. logged w' = logged w @ (Debug, SelectingFolder (rule_name rule) (folder rule)) # ls"
    and "prefix (tasks w) (tasks w')"
  using grows_handle_mail_rule_started [OF assms]
  by (auto simp: grows_def prefix_def log_def)

lemma length_rule_results [simp]:
  "length (rule_results today E M rs w) = length rs"
  by (induction rs arbitrary: w) (simp_all split: prod.splits sum.splits)

lemma handle_rules_results:
  "handle_rules today E M rs tot w = (res, w') \<Longrightarrow>
     res = tot + sum_list (map counted (rule_results today E M rs w))
     \<and> prefix (tasks w) (tasks w')
     \<and> (\<exists>ls. logged w' = logged w @ ls
          \<and> (\<forall>(rule, r) \<in> set (zip rs (rule_results today E M rs w)).
               (Debug, SelectingFolder (rule_name rule) (folder rule)) \<in> set ls
               \<and> (\<forall>e. r = Inl e \<longrightarrow> (Error, ErrorProcessingRule (rule_name rule) e) \<in> set ls)))"
proof (induction rs arbitrary: tot w)
  case Nil
  then show ?case by simp
next
  case (Cons rule rs)
  obtain r1 w1 where s: "handle_mail_rule today E M rule w = (r1, w1)"
    by (cases "handle_mail_rule today E M rule w")
  from handle_mail_rule_started [OF s] obtain ls1 where
    l1: "logged w1 = logged w @ (Debug, SelectingFolder (rule_name rule) (folder rule)) # ls1"
    and t1: "prefix (tasks w) (tasks w1)"
    by blast
  show ?case
  proof (cases r1)
    case (Inl e)
    let ?w2 = "log Error (ErrorProcessingRule (rule_name rule) e) w1"
    from Cons.prems s Inl have hr: "handle_rules today E M rs tot ?w2 = (res, w')" by simp
    from Cons.IH [OF hr] obtain ls2 where
      res: "res = tot + sum_list (map counted (rule_results today E M rs ?w2))"
      and t2: "prefix (tasks ?w2) (tasks w')"
      and l2: "logged w' = logged ?w2 @ ls2"
      and a2: "\<forall>(rule, r) \<in> set (zip rs (rule_results today E M rs ?w2)).
                 (Debug, SelectingFolder (rule_name rule) (folder rule)) \<in> set ls2
                 \<and> (\<forall>e. r = Inl e \<longrightarrow> (Error, ErrorProcessingRule (rule_name rule) e) \<in> set ls2)"
      by blast
    let ?ls = "(Debug, SelectingFolder (rule_name rule) (folder rule)) # ls1
               @ (Error, ErrorProcessingRule (rule_name rule) e) # ls2"
    have rr: "rule_results today E M (rule # rs) w = Inl e # rule_results today E M rs ?w2"
      using s Inl by simp
    have "logged w' = logged w @ ?ls" using l1 l2 by (simp add: log_def)
    moreover have "\<forall>(rule, r) \<in> set (zip (rule # rs) (rule_results today E M (rule # rs) w)).
                 (Debug, SelectingFolder (rule_name rule) (folder rule)) \<in> set ?ls
                 \<and> (\<forall>e. r = Inl e \<longrightarrow> (Error, ErrorProcessingRule (rule_name rule) e) \<in> set ?ls)"
      using a2 unfolding rr by auto
    moreover have "prefix (tasks w) (tasks w')"
      using t1 t2 by (auto simp: log_def prefix_def)
    moreover have "res = tot + sum_list (map counted (rule_results today E M (rule # rs) w))"
      using res unfolding rr by simp
    ultimately show ?thesis by blast
  next
    case (Inr n)
    from Cons.prems s Inr have hr: "handle_rules today E M rs (tot + n) w1 = (res, w')" by simp
    from Cons.IH [OF hr] obtain ls2 where
      res: "res = tot + n + sum_list (map counted (rule_results today E M rs w1))"
      and t2: "prefix (tasks w1) (tasks w')"
      and l2: "logged w' = logged w1 @ ls2"
      and a2: "\<forall>(rule, r) \<in> set (zip rs (rule_results today E M rs w1)).
                 (Debug, SelectingFolder (rule_name rule) (folder rule)) \<in> set ls2
                 \<and> (\<forall>e. r = Inl e \<longrightarrow> (Error, ErrorProcessingRule (rule_name rule) e) \<in> set ls2)"
      by blast
    let ?ls = "(Debug, SelectingFolder (rule_name rule) (folder rule)) # ls1 @ ls2"
    have rr: "rule_results today E M (rule # rs) w = Inr n # rule_results today E M rs w1"
      using s Inr by simp
    have "logged w' = logged w @ ?ls" using l1 l2 by simp
    moreover have "\<forall>(rule, r) \<in> set (zip (rule # rs) (rule_results today E M (rule # rs) w)).
                 (Debug, SelectingFolder (rule_name rule) (folder rule)) \<in> set ?ls
                 \<and> (\<forall>e. r = Inl e \<longrightarrow> (Error, ErrorProcessingRule (rule_name rule) e) \<in> set ?ls)"
      using a2 unfolding rr by auto
    moreover have "prefix (tasks w) (tasks w')"
      using t1 t2 by (auto simp: prefix_def)
    moreover have "res = tot + sum_list (map counted (rule_results today E M (rule # rs) w))"
      using res unfolding rr by simp
    ultimately show ?thesis by blast
  qed
qed

lemma handle_mail_rule_folder_missing:
  assumes "imap_r E (imap w) (FolderSet (folder rule)) = Some MailboxFolderSelectError"
  shows "fst (handle_mail_rule today E M rule w) =
           Inl (MailError (ErrFolder (rule_name rule) (folder rule) (account_name (account rule)))
                  MailboxFolderSelectError)"
  using assms by (simp add: handle_mail_rule_def issue_def Let_def)

lemma handle_mail_account_logged_in:
  assumes "get_mailbox E (imap_server acct) (imap_port acct) (imap_security acct) = Inr M"
    and "login E acct (log Debug (ProcessingAccount (account_name acct)) w) = (None, w1)"
  shows "fst (handle_mail_account today E acct w) =
           Inr (fst (handle_rules today E M (sort_key order (rules E acct)) 0
                       (log Debug (ProcessingRules (account_name acct) (length (rules E acct))) w1)))"
  using assms
  by (simp add: handle_mail_account_def session_def Let_def split: prod.splits option.splits)

section \<open>Criteria dictionaries and queries\<close>

lemma map_of_dict_merge:
  "distinct (map fst b) \<Longrightarrow> map_of (dict_merge a b) = map_of a ++ map_of b"
proof -
  have "distinct (map fst b) \<Longrightarrow>
          map_of (fold (\<lambda>(k, v). AList.update k v) b a) = map_of a ++ map_of b" for a
  proof (induction b arbitrary: a)
    case Nil
    show ?case by simp
  next
    case (Cons p b)
    obtain k v where p: "p = (k, v)" by (cases p)
    from Cons.prems p have n: "map_of b k = None" and d: "distinct (map fst b)"
      by (auto simp: map_of_eq_None_iff)
    show ?case
      unfolding p using n
      by (auto simp: Cons.IH [OF d] update_conv' map_add_def fun_eq_iff split: option.splits)
  qed
  then show "distinct (map fst b) \<Longrightarrow> map_of (dict_merge a b) = map_of a ++ map_of b"
    by (simp add: dict_merge_def)
qed

lemma distinct_get_criteria [simp]: "distinct (map fst (get_criteria a))"
  by (cases a) simp_all

lemma distinct_dict_merge: "distinct (map fst a) \<Longrightarrow> distinct (map fst (dict_merge a b))"
proof -
  have "distinct (map fst a) \<Longrightarrow> distinct (map fst (fold (\<lambda>(k, v). AList.update k v) b a))" for a
    by (induction b arbitrary: a) (auto simp: distinct_update)
  then show "distinct (map fst a) \<Longrightarrow> distinct (map fst (dict_merge a b))"
    by (simp add: dict_merge_def)
qed

lemma map_of_cond_update:
  "map_of (if c then AList.update k v al else al) =
     (\<lambda>x. if c \<and> x = k then Some v else map_of al x)"
  by (auto simp: update_conv' fun_eq_iff)

lemma distinct_cond_update:
  "distinct (map fst al) \<Longrightarrow> distinct (map fst (if c then AList.update k v al else al))"
  by (simp add: distinct_update)

lemma make_criterias_returns:
  assumes "1 \<le> today - maximum_age rule" and "today - maximum_age rule \<le> 3652059"
    and "\<bar>maximum_age rule\<bar> \<le> 999999999"
  shows "\<exists>base a. make_criterias today rule = Inr (dict_merge base (get_criteria a))
           \<and> get_rule_action rule = Inr a
           \<and> distinct (map fst base)
           \<and> map_of base =
               (\<lambda>x. if truthy (filter_body rule) \<and> x = ''body''
                     then Some (TextV (filter_body rule))
                     else if truthy (filter_subject rule) \<and> x = ''subject''
                     then Some (TextV (filter_subject rule))
                     else if truthy (filter_from rule) \<and> x = ''from_''
                     then Some (TextV (filter_from rule))
                     else if maximum_age rule > 0 \<and> x = ''date_gte''
                     then Some (DateV (today - maximum_age rule))
                     else None)"
proof -
  let ?b1 = "if maximum_age rule > 0
             then AList.update ''date_gte'' (DateV (today - maximum_age rule)) []
             else []"
  let ?b2 = "if truthy (filter_from rule)
             then AList.update ''from_'' (TextV (filter_from rule)) ?b1 else ?b1"
  let ?b3 = "if truthy (filter_subject rule)
             then AList.update ''subject'' (TextV (filter_subject rule)) ?b2 else ?b2"
  let ?b4 = "if truthy (filter_body rule)
             then AList.update ''body'' (TextV (filter_body rule)) ?b3 else ?b3"
  obtain a where a: "get_rule_action rule = Inr a"
    using get_rule_action_total by blast
  have m: "make_criterias today rule = Inr (dict_merge ?b4 (get_criteria a))"
    using assms a
    by (simp add: make_criterias_def timedelta_def date_sub_def Let_def)
  have d: "distinct (map fst ?b4)"
    by (intro distinct_cond_update) simp
  have l: "map_of ?b4 =
               (\<lambda>x. if truthy (filter_body rule) \<and> x = ''body''
                     then Some (TextV (filter_body rule))
                     else if truthy (filter_subject rule) \<and> x = ''subject''
                     then Some (TextV (filter_subject rule))
                     else if truthy (filter_from rule) \<and> x = ''from_''
                     then Some (TextV (filter_from rule))
                     else if maximum_age rule > 0 \<and> x = ''date_gte''
                     then Some (DateV (today - maximum_age rule))
                     else None)"
    by (simp only: map_of_cond_update map_of.simps)
  from m a d l show ?thesis by blast
qed


lemma get_rule_action_cases:
  "get_rule_action rule = Inr a \<Longrightarrow>
     a = (case action rule of
            DELETE \<Rightarrow> DeleteMailAction
          | MOVE \<Rightarrow> MoveMailAction
          | MARK_READ \<Rightarrow> MarkReadMailAction
          | FLAG \<Rightarrow> FlagMailAction
          | TAG \<Rightarrow> TagMailAction (action_parameter rule))"
  by (simp add: get_rule_action_total)

lemma make_criterias_merge:
  "make_criterias today rule = Inr m \<Longrightarrow>
     \<exists>base a. m = dict_merge base (get_criteria a) \<and> get_rule_action rule = Inr a"
  by (auto simp: make_criterias_def Let_def split: sum.splits)

lemma make_criterias_tag:
  assumes tag: "action rule = TAG" and crit: "make_criterias today rule = Inr m"
  shows "map_of m ''gmail_label'' = Some (TextV (action_parameter rule))"
    and "map_of m ''no_keyword'' = Some (TextV (action_parameter rule))"
proof -
  from make_criterias_merge [OF crit] obtain base a where
    m: "m = dict_merge base (get_criteria a)" and a: "get_rule_action rule = Inr a"
    by blast
  from get_rule_action_cases [OF a] tag have a': "a = TagMailAction (action_parameter rule)"
    by simp
  show "map_of m ''gmail_label'' = Some (TextV (action_parameter rule))"
    by (simp add: m a' map_of_dict_merge map_add_def)
  show "map_of m ''no_keyword'' = Some (TextV (action_parameter rule))"
    by (simp add: m a' map_of_dict_merge map_add_def)
qed

lemma logic_operator_valued:
  "map_of params k = Some v \<Longrightarrow> v \<noteq> TextV None \<Longrightarrow>
     logic_operator cls qs params = Inr (cls qs params)"
  by (auto simp: logic_operator_def list_all_iff dest!: map_of_SomeD)

lemma criterias_imap_tag:
  assumes tag: "action rule = TAG" and kw: "action_parameter rule = Some k"
    and crit: "make_criterias today rule = Inr m"
  shows "criterias_imap m =
           Inr (AND [NOT [] [(''gmail_label'', TextV (Some k))]] (AList.delete ''gmail_label'' m))"
proof -
  note g = make_criterias_tag [OF tag crit, unfolded kw]
  have 1: "logic_operator AND [] m = Inr (AND [] m)"
    using logic_operator_valued [OF g(1)] by simp
  have 2: "''gmail_label'' \<in> fst ` set m"
    using map_of_SomeD [OF g(1)] by force
  have 3: "logic_operator NOT [] [(''gmail_label'', TextV (Some k))]
             = Inr (NOT [] [(''gmail_label'', TextV (Some k))])"
    by (simp add: logic_operator_def)
  have 4: "logic_operator AND [NOT [] [(''gmail_label'', TextV (Some k))]]
             (AList.delete ''gmail_label'' m)
           = Inr (AND [NOT [] [(''gmail_label'', TextV (Some k))]] (AList.delete ''gmail_label'' m))"
    by (simp add: logic_operator_def)
  show ?thesis
    unfolding criterias_imap_def by (simp add: 1 2 3 4 g Let_def)
qed

lemma criterias_imap_tag_None:
  assumes tag: "action rule = TAG" and kw: "action_parameter rule = None"
    and crit: "make_criterias today rule = Inr m"
  shows "criterias_imap m = Inl ValueError"
proof -
  note g = make_criterias_tag [OF tag crit, unfolded kw]
  have 2: "''gmail_label'' \<in> fst ` set m"
    using map_of_SomeD [OF g(1)] by force
  have 3: "logic_operator NOT [] [(''gmail_label'', TextV None)] = Inl ValueError"
    by (simp add: logic_operator_def)
  show ?thesis
  proof (cases "logic_operator AND [] m")
    case (Inl e)
    then have "e = ValueError" by (auto simp: logic_operator_def split: if_splits)
    with Inl show ?thesis by (simp add: criterias_imap_def)
  next
    case (Inr q)
    then show ?thesis by (simp add: criterias_imap_def 2 3 g Let_def)
  qed
qed

lemma handle_mail_rule_no_criteria:
  assumes sel: "imap_r E (imap w) (FolderSet (folder rule)) = None"
    and "make_criterias today rule = Inl e
         \<or> make_criterias today rule = Inr m \<and> criterias_imap m = Inl e"
  shows "handle_mail_rule today E M rule w =
           (Inl e, (log Debug (SelectingFolder (rule_name rule) (folder rule)) w)
                     \<lparr>imap := imap w @ [FolderSet (folder rule)]\<rparr>)"
  using assms by (auto simp: handle_mail_rule_def issue_def Let_def)

lemma uid_store_accepting:
  "\<forall>tr c. imap_r E tr c = None \<Longrightarrow> fst (uid_store E keyword uids w) = None"
  by (induction uids arbitrary: w) (simp_all add: issue_def)

lemma re_search_gmail_suffix:
  "suffix ''gmail.com'' h \<or> suffix ''googlemail.com'' h \<Longrightarrow> re_search_gmail h"
  by (auto simp: re_search_gmail_def at_dollar_def)

lemma suffix_snoc_newline:
  "suffix (d @ [CHR 0x0A]) h \<Longrightarrow> CHR 0x0A \<in> set h"
  by (auto simp: suffix_def)

lemma re_search_gmail_iff_suffix:
  "CHR 0x0A \<notin> set h \<Longrightarrow>
     re_search_gmail h = (suffix ''gmail.com'' h \<or> suffix ''googlemail.com'' h)"
  using suffix_snoc_newline [of "''gmail.com''" h] suffix_snoc_newline [of "''googlemail.com''" h]
  by (auto simp: re_search_gmail_def at_dollar_def)

section \<open>Evaluating the concrete inputs\<close>

lemmas eval_defs =
  handle_mail_rule_def issue_def make_criterias_def timedelta_def date_sub_def dict_merge_def
  get_rule_action_def criterias_imap_def logic_operator_def
  handle_message_def get_correspondent_def consume_attachment_def dispatch_def get_title_def
  fnmatch_def ascii_lower_def ascii_lower_char_def log_def Let_def
  example_env_def example_rule_def example_account_def example_messages_def invoice_pdf_def
  pdf_payload_def sniff_def empty_world_def mark_read_rule_def two_invoices_def
  full_disk_env_def notes_message_def

lemmas eval_rule_defs =
  eval_defs list_folders_def re_search_gmail_def at_dollar_def suffix_to_prefix
  archive_rule_def two_rules_env_def read_only_env_def

section \<open>Claims about the criteria and the actions\<close>

text \<open>
  C1, as the code has it. For every rule whose date bound, today minus \<open>maximum_age\<close>
  days, is a date (from the year 1 to the year 9999), \<open>make_criterias\<close> returns a
  dictionary. It holds the date lower bound \<open>date_gte\<close>, equal to that date, if and only
  if \<open>maximum_age > 0\<close>; it holds the sender, subject and body filters if and only if
  the rule's filter is present (set and not empty, the source's truth test); and it is
  merged with the pre-filter of the rule's action: \<open>seen = False\<close> for MarkRead,
  \<open>flagged = False\<close> for Flag, nothing for Move and Delete, the keys \<open>no_keyword\<close> and
  \<open>gmail_label\<close> with the keyword for Tag. The dictionary has no other key.
\<close>

theorem make_criterias_contents:
  assumes "1 \<le> today - maximum_age rule" and "today - maximum_age rule \<le> 3652059"
    and "\<bar>maximum_age rule\<bar> \<le> 999999999"
  shows "\<exists>m. make_criterias today rule = Inr m
     \<and> distinct (map fst m)
     \<and> map_of m ''date_gte'' =
         (if maximum_age rule > 0 then Some (DateV (today - maximum_age rule)) else None)
     \<and> map_of m ''from_'' =
         (if truthy (filter_from rule) then Some (TextV (filter_from rule)) else None)
     \<and> map_of m ''subject'' =
         (if truthy (filter_subject rule) then Some (TextV (filter_subject rule)) else None)
     \<and> map_of m ''body'' =
         (if truthy (filter_body rule) then Some (TextV (filter_body rule)) else None)
     \<and> map_of m ''seen'' = (if action rule = MARK_READ then Some (BoolV False) else None)
     \<and> map_of m ''flagged'' = (if action rule = FLAG then Some (BoolV False) else None)
     \<and> map_of m ''no_keyword'' =
         (if action rule = TAG then Some (TextV (action_parameter rule)) else None)
     \<and> map_of m ''gmail_label'' =
         (if action rule = TAG then Some (TextV (action_parameter rule)) else None)
     \<and> fst ` set m \<subseteq> {''date_gte'', ''from_'', ''subject'', ''body'', ''seen'', ''flagged'',
                       ''no_keyword'', ''gmail_label''}"
proof -
  from make_criterias_returns [OF assms] obtain base a where
    m: "make_criterias today rule = Inr (dict_merge base (get_criteria a))"
    and a: "get_rule_action rule = Inr a"
    and d: "distinct (map fst base)"
    and b: "map_of base =
               (\<lambda>x. if truthy (filter_body rule) \<and> x = ''body''
                     then Some (TextV (filter_body rule))
                     else if truthy (filter_subject rule) \<and> x = ''subject''
                     then Some (TextV (filter_subject rule))
                     else if truthy (filter_from rule) \<and> x = ''from_''
                     then Some (TextV (filter_from rule))
                     else if maximum_age rule > 0 \<and> x = ''date_gte''
                     then Some (DateV (today - maximum_age rule))
                     else None)"
    by blast
  let ?m = "dict_merge base (get_criteria a)"
  note a' = get_rule_action_cases [OF a]
  have l: "map_of ?m = map_of base ++ map_of (get_criteria a)"
    by (simp add: map_of_dict_merge)
  have 1: "distinct (map fst ?m)" using d by (rule distinct_dict_merge)
  have 2: "map_of ?m ''date_gte'' =
         (if maximum_age rule > 0 then Some (DateV (today - maximum_age rule)) else None)"
    by (cases "action rule") (simp_all add: a' map_of_dict_merge b map_add_def)
  have 3: "map_of ?m ''from_'' =
         (if truthy (filter_from rule) then Some (TextV (filter_from rule)) else None)"
    by (cases "action rule") (simp_all add: a' map_of_dict_merge b map_add_def)
  have 4: "map_of ?m ''subject'' =
         (if truthy (filter_subject rule) then Some (TextV (filter_subject rule)) else None)"
    by (cases "action rule") (simp_all add: a' map_of_dict_merge b map_add_def)
  have 5: "map_of ?m ''body'' =
         (if truthy (filter_body rule) then Some (TextV (filter_body rule)) else None)"
    by (cases "action rule") (simp_all add: a' map_of_dict_merge b map_add_def)
  have 6: "map_of ?m ''seen'' = (if action rule = MARK_READ then Some (BoolV False) else None)"
    by (cases "action rule") (simp_all add: a' map_of_dict_merge b map_add_def)
  have 7: "map_of ?m ''flagged'' = (if action rule = FLAG then Some (BoolV False) else None)"
    by (cases "action rule") (simp_all add: a' map_of_dict_merge b map_add_def)
  have 8: "map_of ?m ''no_keyword'' =
         (if action rule = TAG then Some (TextV (action_parameter rule)) else None)"
    by (cases "action rule") (simp_all add: a' map_of_dict_merge b map_add_def)
  have 9: "map_of ?m ''gmail_label'' =
         (if action rule = TAG then Some (TextV (action_parameter rule)) else None)"
    by (cases "action rule") (simp_all add: a' map_of_dict_merge b map_add_def)
  have "dom (map_of ?m) \<subseteq> {''date_gte'', ''from_'', ''subject'', ''body'', ''seen'', ''flagged'',
                       ''no_keyword'', ''gmail_label''}"
    by (cases "action rule")
       (auto simp: a' map_of_dict_merge b map_add_def split: if_splits option.splits)
  then have 10: "fst ` set ?m \<subseteq> {''date_gte'', ''from_'', ''subject'', ''body'', ''seen'',
                       ''flagged'', ''no_keyword'', ''gmail_label''}"
    by (simp add: dom_map_of_conv_image_fst)
  from m 1 2 3 4 5 6 7 8 9 10 show ?thesis by blast
qed

theorem make_criterias_contents_witness:
  "make_criterias 738000 example_rule =
     Inr [(''date_gte'', DateV 737970), (''from_'', TextV (Some ''billing@example.com'')),
          (''no_keyword'', TextV (Some ''Invoices'')),
          (''gmail_label'', TextV (Some ''Invoices''))]"
proof -
  have h: "1 \<le> 738000 - maximum_age example_rule" "738000 - maximum_age example_rule \<le> 3652059"
          "\<bar>maximum_age example_rule\<bar> \<le> 999999999"
    by (simp_all add: example_rule_def)
  from make_criterias_contents [OF h] obtain m where
    "make_criterias 738000 example_rule = Inr m"
    "map_of m ''date_gte'' =
       (if maximum_age example_rule > 0 then Some (DateV (738000 - maximum_age example_rule))
        else None)"
    by blast
  then show ?thesis
    by (simp add: make_criterias_def timedelta_def date_sub_def get_rule_action_def
                  dict_merge_def Let_def example_rule_def)
qed

text \<open>
  C1, as the spec states it, fails: \<open>make_criterias\<close> does not return a dictionary for
  every rule. The date is computed before \<open>maximum_age\<close> is tested (line 98), and for a
  maximum age of 800000 days the difference is before the first date there is:
  \<open>OverflowError\<close>.
\<close>

theorem make_criterias_contents_counterexample:
  "make_criterias 738000 (example_rule\<lparr>maximum_age := 800000\<rparr>) = Inl OverflowError"
  by (simp add: make_criterias_def timedelta_def date_sub_def example_rule_def)

text \<open>
  C2. For a rule whose action is Tag with keyword \<open>k\<close>, once the folder is selected and
  the criteria are built, the query handed to \<open>fetch\<close> is
  \<open>AND(NOT(gmail_label = k), <the other flat criteria>)\<close>: the \<open>gmail_label\<close> entry is
  removed from the flat dictionary and negated, the entry \<open>no_keyword = k\<close> stays in it,
  and the fetch with that query is the command after the folder selection. A Tag rule
  with no keyword has no query (\<open>ValueError\<close>), and when the criteria or the query
  cannot be built \<open>handle_mail_rule\<close> raises after the folder selection and fetches
  nothing.
\<close>

theorem tag_rule_fetch_query:
  "(action rule = TAG \<and> action_parameter rule = Some k \<and> make_criterias today rule = Inr m
      \<and> imap_r E (imap w) (FolderSet (folder rule)) = None \<longrightarrow>
      criterias_imap m =
        Inr (AND [NOT [] [(''gmail_label'', TextV (Some k))]] (AList.delete ''gmail_label'' m))
      \<and> map_of (AList.delete ''gmail_label'' m) ''no_keyword'' = Some (TextV (Some k))
      \<and> map_of (AList.delete ''gmail_label'' m) ''gmail_label'' = None
      \<and> (\<exists>cs. imap (snd (handle_mail_rule today E M rule w)) =
                 imap w @ [FolderSet (folder rule),
                           Fetch (AND [NOT [] [(''gmail_label'', TextV (Some k))]]
                                      (AList.delete ''gmail_label'' m))
                                 False (character_set (account rule))] @ cs))
   \<and> (action rule = TAG \<and> action_parameter rule = None \<and> make_criterias today rule = Inr m \<longrightarrow>
        criterias_imap m = Inl ValueError)
   \<and> (imap_r E (imap w) (FolderSet (folder rule)) = None
        \<and> (make_criterias today rule = Inl e
             \<or> make_criterias today rule = Inr m \<and> criterias_imap m = Inl e) \<longrightarrow>
        handle_mail_rule today E M rule w =
          (Inl e, (log Debug (SelectingFolder (rule_name rule) (folder rule)) w)
                    \<lparr>imap := imap w @ [FolderSet (folder rule)]\<rparr>))"
proof -
  have 1: "criterias_imap m =
        Inr (AND [NOT [] [(''gmail_label'', TextV (Some k))]] (AList.delete ''gmail_label'' m))
      \<and> map_of (AList.delete ''gmail_label'' m) ''no_keyword'' = Some (TextV (Some k))
      \<and> map_of (AList.delete ''gmail_label'' m) ''gmail_label'' = None
      \<and> (\<exists>cs. imap (snd (handle_mail_rule today E M rule w)) =
                 imap w @ [FolderSet (folder rule),
                           Fetch (AND [NOT [] [(''gmail_label'', TextV (Some k))]]
                                      (AList.delete ''gmail_label'' m))
                                 False (character_set (account rule))] @ cs)"
    if tag: "action rule = TAG" and kw: "action_parameter rule = Some k"
      and crit: "make_criterias today rule = Inr m"
      and sel: "imap_r E (imap w) (FolderSet (folder rule)) = None"
  proof -
    note q = criterias_imap_tag [OF tag kw crit]
    note g = make_criterias_tag [OF tag crit, unfolded kw]
    have "map_of (AList.delete ''gmail_label'' m) ''no_keyword'' = Some (TextV (Some k))"
         "map_of (AList.delete ''gmail_label'' m) ''gmail_label'' = None"
      using g by (simp_all add: delete_conv')
    with q handle_mail_rule_fetch [OF sel crit q, of M] show ?thesis by simp
  qed
  from 1 criterias_imap_tag_None [of rule today m]
       handle_mail_rule_no_criteria [of E w rule today e m M]
  show ?thesis by blast
qed

theorem tag_rule_fetch_query_witness:
  "criterias_imap [(''date_gte'', DateV 737970), (''from_'', TextV (Some ''billing@example.com'')),
                   (''no_keyword'', TextV (Some ''Invoices'')),
                   (''gmail_label'', TextV (Some ''Invoices''))]
     = Inr (AND [NOT [] [(''gmail_label'', TextV (Some ''Invoices''))]]
                [(''date_gte'', DateV 737970), (''from_'', TextV (Some ''billing@example.com'')),
                 (''no_keyword'', TextV (Some ''Invoices''))])
   \<and> take 2 (imap (snd (handle_mail_rule 738000 example_env (MailBoxSSL ''imap.gmail.com'' 993)
                           example_rule empty_world)))
       = [FolderSet ''INBOX'',
          Fetch (AND [NOT [] [(''gmail_label'', TextV (Some ''Invoices''))]]
                     [(''date_gte'', DateV 737970),
                      (''from_'', TextV (Some ''billing@example.com'')),
                      (''no_keyword'', TextV (Some ''Invoices''))])
                False ''UTF-8'']"
proof -
  let ?m = "[(''date_gte'', DateV 737970), (''from_'', TextV (Some ''billing@example.com'')),
             (''no_keyword'', TextV (Some ''Invoices'')),
             (''gmail_label'', TextV (Some ''Invoices''))]"
  have tag: "action example_rule = TAG" and kw: "action_parameter example_rule = Some ''Invoices''"
    by (simp_all add: example_rule_def)
  have crit: "make_criterias 738000 example_rule = Inr ?m"
    by (simp add: make_criterias_def timedelta_def date_sub_def get_rule_action_def
                  dict_merge_def Let_def example_rule_def)
  have sel: "imap_r example_env (imap empty_world) (FolderSet (folder example_rule)) = None"
    by (simp add: example_env_def)
  from tag_rule_fetch_query
         [where rule = example_rule and k = "''Invoices''" and today = 738000 and m = ?m
            and E = example_env and w = empty_world and M = "MailBoxSSL ''imap.gmail.com'' 993"]
       tag kw crit sel
  have "criterias_imap ?m =
          Inr (AND [NOT [] [(''gmail_label'', TextV (Some ''Invoices''))]]
                   (AList.delete ''gmail_label'' ?m))
        \<and> (\<exists>cs. imap (snd (handle_mail_rule 738000 example_env (MailBoxSSL ''imap.gmail.com'' 993)
                              example_rule empty_world)) =
                 imap empty_world
                 @ [FolderSet (folder example_rule),
                    Fetch (AND [NOT [] [(''gmail_label'', TextV (Some ''Invoices''))]]
                               (AList.delete ''gmail_label'' ?m))
                          False (character_set (account example_rule))] @ cs)"
    by blast
  then show ?thesis
    by (auto simp: example_rule_def example_account_def empty_world_def)
qed

text \<open>
  C3. For a Tag action with keyword \<open>k\<close> and a batch of uids: if the host matches the
  Gmail pattern, \<open>post_consume\<close> sends only raw commands \<open>UID STORE <uid> X-GM-LABELS <k>\<close>,
  one per uid in the order of the batch and, when it returns, exactly one for every uid
  of the batch (it returns whenever the server refuses none of them), and no flag
  command; otherwise it sends one flag command that sets the keyword \<open>k\<close> on the whole
  batch. By \<open>re_search_gmail_iff_suffix\<close> the pattern matches a host without a newline
  if and only if the host ends with \<open>gmail.com\<close> or \<open>googlemail.com\<close>.
\<close>

theorem tag_post_consume_commands:
  assumes "post_consume E (TagMailAction keyword) M message_uids parameter w = (r, w')"
  shows "(re_search_gmail (host M) \<longrightarrow>
            (\<exists>n \<le> length message_uids.
               imap w' = imap w @ map (\<lambda>u. Uid ''STORE'' u ''X-GM-LABELS'' keyword)
                                      (take n message_uids))
            \<and> (r = None \<longrightarrow>
                 imap w' = imap w @ map (\<lambda>u. Uid ''STORE'' u ''X-GM-LABELS'' keyword)
                                        message_uids)
            \<and> ((\<forall>tr c. imap_r E tr c = None) \<longrightarrow> r = None))
       \<and> (\<not> re_search_gmail (host M) \<longrightarrow>
            imap w' = imap w @ [Flag message_uids [Keyword keyword] True])"
proof (cases "re_search_gmail (host M)")
  case True
  with assms have u: "uid_store E keyword message_uids w = (r, w')" by simp
  from uid_store_imap [OF u] obtain n where
    n: "n \<le> length message_uids"
       "imap w' = imap w @ map (\<lambda>u. Uid ''STORE'' u ''X-GM-LABELS'' keyword) (take n message_uids)"
       "r = None \<longrightarrow> n = length message_uids"
    by blast
  have "(\<forall>tr c. imap_r E tr c = None) \<longrightarrow> r = None"
    using uid_store_accepting [of E keyword message_uids w] u by auto
  with True n show ?thesis by auto
next
  case False
  with assms show ?thesis by (auto simp: issue_def)
qed

theorem tag_post_consume_commands_witness:
  "re_search_gmail (host (MailBoxSSL ''imap.gmail.com'' 993))
   \<and> post_consume example_env (TagMailAction (Some ''Invoices'')) (MailBoxSSL ''imap.gmail.com'' 993)
        [''7'', ''9''] (Some ''Invoices'') empty_world =
       (None, empty_world\<lparr>imap := [Uid ''STORE'' ''7'' ''X-GM-LABELS'' (Some ''Invoices''),
                                    Uid ''STORE'' ''9'' ''X-GM-LABELS'' (Some ''Invoices'')]\<rparr>)
   \<and> \<not> re_search_gmail (host (MailBoxSSL ''mail.example.org'' 993))
   \<and> post_consume example_env (TagMailAction (Some ''Invoices'')) (MailBoxSSL ''mail.example.org'' 993)
        [''7'', ''9''] (Some ''Invoices'') empty_world =
       (None, empty_world\<lparr>imap := [Flag [''7'', ''9''] [Keyword (Some ''Invoices'')] True]\<rparr>)"
proof -
  have g: "re_search_gmail (host (MailBoxSSL ''imap.gmail.com'' 993))"
    by (simp add: re_search_gmail_def at_dollar_def suffix_to_prefix)
  have n: "\<not> re_search_gmail (host (MailBoxSSL ''mail.example.org'' 993))"
    by (simp add: re_search_gmail_def at_dollar_def suffix_to_prefix)
  have p1: "post_consume example_env (TagMailAction (Some ''Invoices''))
              (MailBoxSSL ''imap.gmail.com'' 993) [''7'', ''9''] (Some ''Invoices'') empty_world =
            (None, empty_world\<lparr>imap := [Uid ''STORE'' ''7'' ''X-GM-LABELS'' (Some ''Invoices''),
                                    Uid ''STORE'' ''9'' ''X-GM-LABELS'' (Some ''Invoices'')]\<rparr>)"
    using g by (simp add: issue_def example_env_def empty_world_def)
  have p2: "post_consume example_env (TagMailAction (Some ''Invoices''))
              (MailBoxSSL ''mail.example.org'' 993) [''7'', ''9''] (Some ''Invoices'') empty_world =
            (None, empty_world\<lparr>imap := [Flag [''7'', ''9''] [Keyword (Some ''Invoices'')] True]\<rparr>)"
    using n by (simp add: issue_def example_env_def empty_world_def)
  from tag_post_consume_commands [OF p1] tag_post_consume_commands [OF p2] g n p1 p2
  show ?thesis by blast
qed

section \<open>Claims about the attachment pipeline\<close>







lemma dispatch_content_type:
  "dispatch E rule (message\<lparr>attachments := X\<rparr>) c t d (att\<lparr>content_type := ct\<rparr>) w =
   dispatch E rule message c t d att w"
  by (simp add: dispatch_def get_title_def Let_def split: sum.splits option.splits)

lemma consume_attachment_content_type:
  "consume_attachment E rule (message\<lparr>attachments := X\<rparr>) c t d (att\<lparr>content_type := ct\<rparr>) w =
   consume_attachment E rule message c t d att w"
  by (simp add: consume_attachment_def dispatch_content_type)

lemma consume_attachments_content_type:
  "consume_attachments E rule (message\<lparr>attachments := X\<rparr>) c t d
     (map (\<lambda>a. a\<lparr>content_type := f a\<rparr>) atts) n w =
   consume_attachments E rule message c t d atts n w"
proof (induction atts arbitrary: n w)
  case Nil
  show ?case by simp
next
  case (Cons att atts)
  show ?case
    by (simp add: consume_attachment_content_type Cons.IH split: prod.splits sum.splits)
qed

lemma get_correspondent_attachments:
  "get_correspondent E (message\<lparr>attachments := X\<rparr>) rule w = get_correspondent E message rule w"
  by (simp add: get_correspondent_def Let_def split: option.splits)

lemma dispatch_supported:
  assumes "from_buffer E (payload att) = Inr mime_type"
    and "is_mime_type_supported E mime_type"
    and "mkstemp E (files w) = Inr temp_filename"
    and "\<forall>q t. async_task E q t = None"
  shows "\<exists>title task w'. dispatch E rule message c t d att w = (Inr 1, w')
           \<and> get_title E message att rule = Inr title
           \<and> tasks w' = tasks w @ [task]
           \<and> files w' = files w @ [(temp_filename, payload att)]
           \<and> path task = temp_filename \<and> override_title task = title
           \<and> override_filename task = sanitize_filename E (filename att)
           \<and> task_name task = take 100 (filename att)"
proof -
  obtain title where ti: "get_title E message att rule = Inr title"
    by (cases "assign_title_from rule") (simp_all add: get_title_def)
  show ?thesis
    using assms ti by (simp add: dispatch_def Let_def log_def)
qed

text \<open>
  C9. The declared content type of an attachment has no influence: \<open>handle_message\<close>
  returns the same result and leaves the same world (files, queued tasks, log) when the
  declared content types of the attachments are replaced by any others, and so does the
  loop body for one attachment. In particular an attachment declared
  \<open>application/octet-stream\<close> that passes the disposition and filename filters and whose
  payload sniffs as a supported type is written to the scratch directory and
  dispatched, when the temporary file and the task can be created.
\<close>

theorem declared_content_type_ignored:
  "handle_message E (message\<lparr>attachments := map (\<lambda>a. a\<lparr>content_type := f a\<rparr>) (attachments message)\<rparr>)
      rule w = handle_message E message rule w
   \<and> consume_attachment E rule message c t d (att\<lparr>content_type := ct\<rparr>) w =
       consume_attachment E rule message c t d att w
   \<and> (content_type att = ''application/octet-stream''
        \<and> \<not> (content_disposition att \<noteq> ''attachment'' \<and> attachment_type rule = ATTACHMENTS_ONLY)
        \<and> \<not> (truthy (filter_attachment_filename rule) \<and> \<not> fnmatch (str_lower E (filename att))
                        (str_lower E (the (filter_attachment_filename rule))))
        \<and> from_buffer E (payload att) = Inr mime_type \<and> is_mime_type_supported E mime_type
        \<and> mkstemp E (files w) = Inr temp_filename \<and> (\<forall>q t. async_task E q t = None) \<longrightarrow>
      (\<exists>task w'. consume_attachment E rule message c t d att w = (Inr 1, w')
         \<and> tasks w' = tasks w @ [task] \<and> path task = temp_filename
         \<and> task_name task = take 100 (filename att)
         \<and> files w' = files w @ [(temp_filename, payload att)]))"
proof -
  have 1: "handle_message E (message\<lparr>attachments := map (\<lambda>a. a\<lparr>content_type := f a\<rparr>)
                                                      (attachments message)\<rparr>) rule w
           = handle_message E message rule w"
    by (simp add: handle_message_def get_correspondent_attachments
                  consume_attachments_content_type Let_def split: prod.splits sum.splits)
  have 2: "consume_attachment E rule message c t d (att\<lparr>content_type := ct\<rparr>) w =
           consume_attachment E rule message c t d att w"
    using consume_attachment_content_type
            [where message = message and X = "attachments message" and att = att]
    by simp
  have 3: "\<exists>task w'. consume_attachment E rule message c t d att w = (Inr 1, w')
         \<and> tasks w' = tasks w @ [task] \<and> path task = temp_filename
         \<and> task_name task = take 100 (filename att)
         \<and> files w' = files w @ [(temp_filename, payload att)]"
    if "\<not> (content_disposition att \<noteq> ''attachment'' \<and> attachment_type rule = ATTACHMENTS_ONLY)"
      and "\<not> (truthy (filter_attachment_filename rule) \<and> \<not> fnmatch (str_lower E (filename att))
                        (str_lower E (the (filter_attachment_filename rule))))"
      and "from_buffer E (payload att) = Inr mime_type" and "is_mime_type_supported E mime_type"
      and "mkstemp E (files w) = Inr temp_filename" and "\<forall>q t. async_task E q t = None"
  proof -
    have "consume_attachment E rule message c t d att w = dispatch E rule message c t d att w"
      using that(1,2) by (auto simp: consume_attachment_def)
    with dispatch_supported [OF that(3-6), of rule message c t d] show ?thesis
      by auto
  qed
  from 1 2 3 show ?thesis by blast
qed

theorem declared_content_type_ignored_witness:
  "content_type invoice_pdf = ''application/octet-stream''
   \<and> from_buffer example_env (payload invoice_pdf) = Inr ''application/pdf''
   \<and> is_mime_type_supported example_env ''application/pdf''
   \<and> (\<exists>task w'. consume_attachment example_env example_rule (hd example_messages) None [3] None
                     invoice_pdf empty_world = (Inr 1, w')
         \<and> tasks w' = tasks empty_world @ [task] \<and> path task = ''paperless-mail-''
         \<and> task_name task = take 100 (filename invoice_pdf)
         \<and> files w' = files empty_world @ [(''paperless-mail-'', payload invoice_pdf)])"
proof -
  have ct: "content_type invoice_pdf = ''application/octet-stream''"
    by (simp add: invoice_pdf_def)
  have d: "\<not> (content_disposition invoice_pdf \<noteq> ''attachment''
               \<and> attachment_type example_rule = ATTACHMENTS_ONLY)"
    by (simp add: invoice_pdf_def)
  have g: "\<not> (truthy (filter_attachment_filename example_rule)
               \<and> \<not> fnmatch (str_lower example_env (filename invoice_pdf))
                            (str_lower example_env (the (filter_attachment_filename example_rule))))"
    by (simp add: example_env_def example_rule_def invoice_pdf_def fnmatch_def ascii_lower_def
                  ascii_lower_char_def)
  have s: "from_buffer example_env (payload invoice_pdf) = Inr ''application/pdf''"
    by (simp add: example_env_def invoice_pdf_def pdf_payload_def sniff_def)
  have m: "is_mime_type_supported example_env ''application/pdf''"
    by (simp add: example_env_def)
  have t: "mkstemp example_env (files empty_world) = Inr ''paperless-mail-''"
    by (simp add: example_env_def empty_world_def)
  have q: "\<forall>q t. async_task example_env q t = None"
    by (simp add: example_env_def)
  from declared_content_type_ignored
         [where E = example_env and message = "hd example_messages" and rule = example_rule
            and w = empty_world and c = None and t = "[3]" and d = None and att = invoice_pdf
            and mime_type = "''application/pdf''" and temp_filename = "''paperless-mail-''"]
       ct d g s m t q
  show ?thesis by blast
qed

section \<open>Claims about the pass over the messages of a rule\<close>

lemma handle_messages_results:
  "handle_messages E rule messages (pcm, mp, tot) w = ((pcm', mp', tot'), w') \<Longrightarrow>
     pcm' = pcm @ map (\<lambda>(m, r). uid m)
                    (filter (\<lambda>(m, r). 0 < counted r) (zip messages (message_results E rule messages w)))
     \<and> mp' = mp + length (filter (\<lambda>r. \<not> isl r) (message_results E rule messages w))
     \<and> tot' = tot + sum_list (map counted (message_results E rule messages w))"
proof (induction messages arbitrary: pcm mp tot w)
  case Nil
  then show ?case by simp
next
  case (Cons message messages)
  obtain r1 w1 where s: "handle_message E message rule w = (r1, w1)"
    by (cases "handle_message E message rule w")
  show ?case
  proof (cases r1)
    case (Inl e)
    with Cons.prems s have
      "handle_messages E rule messages (pcm, mp, tot)
         (log Error (ErrorProcessingMail (rule_name rule) (uid message) e) w1)
       = ((pcm', mp', tot'), w')"
      by simp
    from Cons.IH [OF this] s Inl show ?thesis by simp
  next
    case (Inr k)
    with Cons.prems s have
      "handle_messages E rule messages
         (if k > 0 then pcm @ [uid message] else pcm, mp + 1, tot + k) w1
       = ((pcm', mp', tot'), w')"
      by simp
    from Cons.IH [OF this] s Inr show ?thesis by simp
  qed
qed

lemma length_message_results [simp]:
  "length (message_results E rule messages w) = length messages"
  by (induction messages arbitrary: w) (simp_all split: prod.splits sum.splits)

lemma get_title_total: "\<exists>title. get_title E message att rule = Inr title"
  by (cases "assign_title_from rule") (simp_all add: get_title_def)

lemma consume_attachment_skipped:
  assumes "skipped E rule att"
  shows "\<exists>w'. consume_attachment E rule message c t d att w = (Inr 0, w')
           \<and> tasks w' = tasks w \<and> files w' = files w"
proof -
  obtain title where ti: "get_title E message att rule = Inr title"
    using get_title_total by blast
  show ?thesis
    using assms ti
    by (auto simp: skipped_def consume_attachment_def dispatch_def log_def)
qed

lemma consume_attachments_skipped:
  assumes "\<forall>att \<in> set atts. skipped E rule att"
  shows "\<exists>w'. consume_attachments E rule message c t d atts n w = (Inr n, w')
           \<and> tasks w' = tasks w \<and> files w' = files w"
  using assms
proof (induction atts arbitrary: w)
  case Nil
  then show ?case by simp
next
  case (Cons att atts)
  from Cons.prems have "skipped E rule att" by simp
  from consume_attachment_skipped [OF this, of message c t d w] obtain w1 where
    w1: "consume_attachment E rule message c t d att w = (Inr 0, w1)"
        "tasks w1 = tasks w" "files w1 = files w"
    by blast
  from Cons.prems have "\<forall>att \<in> set atts. skipped E rule att" by simp
  from Cons.IH [OF this, of w1] w1 show ?case by simp
qed

lemma correspondent_from_name_frame:
  "correspondent_from_name E name w = (r, w') \<Longrightarrow>
     imap w' = imap w \<and> tasks w' = tasks w \<and> files w' = files w"
  by (auto simp: correspondent_from_name_def log_def split: sum.splits if_splits)

lemma get_correspondent_frame:
  "get_correspondent E message rule w = (r, w') \<Longrightarrow>
     imap w' = imap w \<and> tasks w' = tasks w \<and> files w' = files w"
  by (auto simp: get_correspondent_def Let_def dest: correspondent_from_name_frame
           split: if_splits option.splits)

lemma correspondent_from_name_fst:
  "fst (correspondent_from_name E name w) = fst (correspondent_from_name E name w0)"
  by (simp add: correspondent_from_name_def split: sum.splits)

lemma get_correspondent_fst:
  "fst (get_correspondent E message rule w) = fst (get_correspondent E message rule w0)"
  using correspondent_from_name_fst [of E _ w w0]
  by (simp add: get_correspondent_def Let_def split: option.splits)

lemma handle_message_skipped:
  assumes "\<forall>att \<in> set (attachments message). skipped E rule att"
  shows "counted (fst (handle_message E message rule w)) = 0
         \<and> tasks (snd (handle_message E message rule w)) = tasks w
         \<and> ((\<forall>e. fst (get_correspondent E message rule w) \<noteq> Inl e) \<longrightarrow>
              fst (handle_message E message rule w) = Inr 0)"
proof (cases "attachments message = []")
  case True
  then show ?thesis by (simp add: handle_message_def)
next
  case False
  let ?w1 = "log Debug (ProcessingMail (rule_name rule) (subject message) (from' message)
                          (length (attachments message))) w"
  obtain r2 w2 where g: "get_correspondent E message rule ?w1 = (r2, w2)"
    by (cases "get_correspondent E message rule ?w1")
  have f: "tasks w2 = tasks w" using get_correspondent_frame [OF g] by simp
  have r2: "r2 = fst (get_correspondent E message rule w)"
    using get_correspondent_fst [of E message rule ?w1 w] g by simp
  show ?thesis
  proof (cases r2)
    case (Inl e)
    have hm: "handle_message E message rule w = (Inl e, w2)"
      using False g Inl by (simp add: handle_message_def Let_def)
    have "fst (get_correspondent E message rule w) = Inl e"
      using r2 Inl by simp
    with hm f show ?thesis by auto
  next
    case (Inr c)
    from consume_attachments_skipped [OF assms, of message c "assign_tags rule"
           "assign_document_type rule" 0 w2]
    obtain w' where
      "consume_attachments E rule message c (assign_tags rule) (assign_document_type rule)
         (attachments message) 0 w2 = (Inr 0, w')" "tasks w' = tasks w2"
      by blast
    then have "handle_message E message rule w = (Inr 0, w')" "tasks w' = tasks w"
      using False g f Inr by (simp_all add: handle_message_def Let_def)
    then show ?thesis by simp
  qed
qed


lemma length_filter_zip_snd:
  "length xs = length ys \<Longrightarrow>
     length (filter (\<lambda>(x, y). P y) (zip xs ys)) = length (filter P ys)"
  by (induction xs ys rule: list_induct2) simp_all

lemma handle_mail_rule_batch:
  assumes sel: "imap_r E (imap w) (FolderSet (folder rule)) = None"
    and crit: "make_criterias today rule = Inr m"
    and query: "criterias_imap m = Inr q"
    and fetch: "fetch_r E (imap w @ [FolderSet (folder rule)])
                  (Fetch q False (character_set (account rule))) = Inr (messages, None)"
    and act: "get_rule_action rule = Inr a"
  shows "handle_mail_rule today E M rule w =
           (case post_consume E a M
                   (map (\<lambda>(m, r). uid m)
                      (filter (\<lambda>(m, r). 0 < counted r)
                         (zip messages (message_results E rule messages (at_fetch rule q w)))))
                   (action_parameter rule)
                   (log Debug (RunningActions (rule_name rule)
                      (length (filter (\<lambda>r. 0 < counted r)
                                 (message_results E rule messages (at_fetch rule q w)))))
                     (log Debug (ProcessedMails (rule_name rule)
                        (length (filter (\<lambda>r. \<not> isl r)
                                   (message_results E rule messages (at_fetch rule q w)))))
                        (snd (handle_messages E rule messages ([], 0, 0) (at_fetch rule q w))))) of
              (Some e, w') \<Rightarrow> (Inl (MailError (ErrPostConsume (rule_name rule)) e), w')
            | (None, w') \<Rightarrow>
                (Inr (sum_list (map counted (message_results E rule messages (at_fetch rule q w)))),
                 w'))"
proof -
  let ?rs = "message_results E rule messages (at_fetch rule q w)"
  obtain pcm mp tot w4 where
    h: "handle_messages E rule messages ([], 0, 0) (at_fetch rule q w) = ((pcm, mp, tot), w4)"
    by (metis prod.exhaust)
  from handle_messages_results [OF h] have
    r: "pcm = map (\<lambda>(m, r). uid m) (filter (\<lambda>(m, r). 0 < counted r) (zip messages ?rs))"
       "mp = length (filter (\<lambda>r. \<not> isl r) ?rs)" "tot = sum_list (map counted ?rs)"
    by simp_all
  have "length (filter (\<lambda>(m, r). 0 < counted r) (zip messages ?rs))
        = length (filter (\<lambda>r. 0 < counted r) ?rs)"
    by (rule length_filter_zip_snd) simp
  then have l: "length pcm = length (filter (\<lambda>r. 0 < counted r) ?rs)"
    using r(1) by simp
  have "handle_mail_rule today E M rule w = run_actions E M rule (pcm, mp, tot) w4"
    using handle_mail_rule_at_fetch [OF sel crit query, of M] fetch h by simp
  then show ?thesis
    using act h l r by (simp add: Let_def)
qed

text \<open>
  C4, as the code has it. In a pass of \<open>handle_mail_rule\<close> that selects the folder,
  builds the query and receives all the fetched messages, \<open>post_consume\<close> of the rule's
  action is called once, with exactly the uids of the messages whose \<open>handle_message\<close>
  returned, without raising, a count of at least one dispatched attachment, in the order
  of the fetch; the pass returns the sum of the returned counts, or the \<open>MailError\<close> of
  the post-consume effect when that raises. A message whose handling raises is left out
  of both the batch and the count, whatever it had dispatched before. A message with no
  attachment returns 0 at once, with no effect. A message all of whose attachments are
  skipped (disposition, filename filter or unsupported mime type) queues nothing and
  counts nothing, and returns 0 unless the correspondent lookup raises.
\<close>

theorem post_consume_batch:
  "(imap_r E (imap w) (FolderSet (folder rule)) = None
      \<and> make_criterias today rule = Inr m \<and> criterias_imap m = Inr q
      \<and> fetch_r E (imap w @ [FolderSet (folder rule)])
          (Fetch q False (character_set (account rule))) = Inr (messages, None)
      \<and> get_rule_action rule = Inr a \<longrightarrow>
      handle_mail_rule today E M rule w =
        (case post_consume E a M
                (map (\<lambda>(m, r). uid m)
                   (filter (\<lambda>(m, r). 0 < counted r)
                      (zip messages (message_results E rule messages (at_fetch rule q w)))))
                (action_parameter rule)
                (log Debug (RunningActions (rule_name rule)
                   (length (filter (\<lambda>r. 0 < counted r)
                              (message_results E rule messages (at_fetch rule q w)))))
                  (log Debug (ProcessedMails (rule_name rule)
                     (length (filter (\<lambda>r. \<not> isl r)
                                (message_results E rule messages (at_fetch rule q w)))))
                     (snd (handle_messages E rule messages ([], 0, 0) (at_fetch rule q w))))) of
           (Some e, w') \<Rightarrow> (Inl (MailError (ErrPostConsume (rule_name rule)) e), w')
         | (None, w') \<Rightarrow>
             (Inr (sum_list (map counted (message_results E rule messages (at_fetch rule q w)))),
              w'))
      \<and> length (message_results E rule messages (at_fetch rule q w)) = length messages)
   \<and> (attachments message = [] \<longrightarrow> handle_message E message rule w = (Inr 0, w))
   \<and> ((\<forall>att \<in> set (attachments message). skipped E rule att) \<longrightarrow>
        counted (fst (handle_message E message rule w)) = 0
        \<and> tasks (snd (handle_message E message rule w)) = tasks w
        \<and> ((\<forall>e. fst (get_correspondent E message rule w) \<noteq> Inl e) \<longrightarrow>
              fst (handle_message E message rule w) = Inr 0))"
  using handle_mail_rule_batch [of E w rule today m q messages a M]
        handle_message_skipped [of message E rule w]
  by (simp add: handle_message_def)

theorem post_consume_batch_witness:
  "fst (handle_mail_rule 738000 example_env (MailBoxSSL ''imap.gmail.com'' 993) mark_read_rule
          empty_world) = Inr 1
   \<and> last (imap (snd (handle_mail_rule 738000 example_env (MailBoxSSL ''imap.gmail.com'' 993)
                        mark_read_rule empty_world)))
       = Flag [''7''] [SEEN] True
   \<and> message_results example_env mark_read_rule example_messages
         (at_fetch mark_read_rule
            (AND [] [(''date_gte'', DateV 737970),
                     (''from_'', TextV (Some ''billing@example.com'')),
                     (''seen'', BoolV False)]) empty_world)
       = [Inr 1, Inr 0]
   \<and> attachments (example_messages ! 1) = []
   \<and> handle_message example_env (example_messages ! 1) mark_read_rule empty_world
       = (Inr 0, empty_world)
   \<and> fst (handle_message example_env notes_message mark_read_rule empty_world) = Inr 0
   \<and> tasks (snd (handle_message example_env notes_message mark_read_rule empty_world)) = []"
proof -
  let ?m = "[(''date_gte'', DateV 737970), (''from_'', TextV (Some ''billing@example.com'')),
             (''seen'', BoolV False)]"
  let ?M = "MailBoxSSL ''imap.gmail.com'' 993"
  have sel: "imap_r example_env (imap empty_world) (FolderSet (folder mark_read_rule)) = None"
    by (simp add: example_env_def)
  have crit: "make_criterias 738000 mark_read_rule = Inr ?m"
    by (simp add: eval_defs)
  have query: "criterias_imap ?m = Inr (AND [] ?m)"
    by (simp add: eval_defs)
  have fetch: "fetch_r example_env (imap empty_world @ [FolderSet (folder mark_read_rule)])
                 (Fetch (AND [] ?m) False (character_set (account mark_read_rule)))
               = Inr (example_messages, None)"
    by (simp add: example_env_def)
  have act: "get_rule_action mark_read_rule = Inr MarkReadMailAction"
    by (simp add: eval_defs)
  have r: "message_results example_env mark_read_rule example_messages
             (at_fetch mark_read_rule (AND [] ?m) empty_world) = [Inr 1, Inr 0]"
    by (simp add: at_fetch_def eval_defs)
  have e: "attachments (example_messages ! 1) = []"
    by (simp add: example_messages_def)
  have sk: "\<forall>att \<in> set (attachments notes_message). skipped example_env mark_read_rule att"
    by (simp add: skipped_def eval_defs)
  have c: "\<forall>e. fst (get_correspondent example_env notes_message mark_read_rule empty_world)
                \<noteq> Inl e"
    by (simp add: eval_defs)
  have t: "tasks empty_world = []"
    by (simp add: empty_world_def)
  note A = post_consume_batch
         [where E = example_env and rule = mark_read_rule and messages = example_messages
            and w = empty_world and today = 738000 and m = ?m and q = "AND [] ?m"
            and a = MarkReadMailAction and M = ?M and message = "example_messages ! 1"]
  note B = post_consume_batch
         [where E = example_env and rule = mark_read_rule and messages = example_messages
            and w = empty_world and today = 738000 and m = ?m and q = "AND [] ?m"
            and a = MarkReadMailAction and M = ?M and message = notes_message]
  from A sel crit query fetch act have
    "handle_mail_rule 738000 example_env ?M mark_read_rule empty_world =
        (case post_consume example_env MarkReadMailAction ?M
                (map (\<lambda>(m, r). uid m)
                   (filter (\<lambda>(m, r). 0 < counted r)
                      (zip example_messages
                         (message_results example_env mark_read_rule example_messages
                            (at_fetch mark_read_rule (AND [] ?m) empty_world)))))
                (action_parameter mark_read_rule)
                (log Debug (RunningActions (rule_name mark_read_rule)
                   (length (filter (\<lambda>r. 0 < counted r)
                              (message_results example_env mark_read_rule example_messages
                                 (at_fetch mark_read_rule (AND [] ?m) empty_world)))))
                  (log Debug (ProcessedMails (rule_name mark_read_rule)
                     (length (filter (\<lambda>r. \<not> isl r)
                                (message_results example_env mark_read_rule example_messages
                                   (at_fetch mark_read_rule (AND [] ?m) empty_world)))))
                     (snd (handle_messages example_env mark_read_rule example_messages ([], 0, 0)
                             (at_fetch mark_read_rule (AND [] ?m) empty_world))))) of
           (Some e, w') \<Rightarrow> (Inl (MailError (ErrPostConsume (rule_name mark_read_rule)) e), w')
         | (None, w') \<Rightarrow>
             (Inr (sum_list (map counted
                     (message_results example_env mark_read_rule example_messages
                        (at_fetch mark_read_rule (AND [] ?m) empty_world)))),
              w'))"
    by blast
  then have h: "fst (handle_mail_rule 738000 example_env ?M mark_read_rule empty_world) = Inr 1"
     "last (imap (snd (handle_mail_rule 738000 example_env ?M mark_read_rule empty_world)))
        = Flag [''7''] [SEEN] True"
    unfolding r by (simp_all add: example_messages_def post_consume.simps issue_def log_def
                      example_env_def mark_read_rule_def example_rule_def split: prod.splits)
  from A e have z: "handle_message example_env (example_messages ! 1) mark_read_rule empty_world
                      = (Inr 0, empty_world)"
    by blast
  from B sk c have n: "fst (handle_message example_env notes_message mark_read_rule empty_world)
                         = Inr 0"
                       "tasks (snd (handle_message example_env notes_message mark_read_rule
                                      empty_world)) = tasks empty_world"
    by blast+
  from h r e z n t show ?thesis by simp
qed

text \<open>
  C4, as the spec states it, fails: the batch is not the set of messages that dispatched
  an attachment. The first attachment of the message is dispatched, the temporary file
  for the second cannot be created, the exception is caught by the loop, and the message
  is neither in the batch (the flag command has no uid) nor in the count.
\<close>

theorem post_consume_batch_counterexample:
  "fst (handle_mail_rule 738000 full_disk_env (MailBoxSSL ''imap.gmail.com'' 993)
          mark_read_rule empty_world) = Inr 0
   \<and> map task_name (tasks (snd (handle_mail_rule 738000 full_disk_env
                                  (MailBoxSSL ''imap.gmail.com'' 993) mark_read_rule empty_world)))
       = [''invoice.pdf'']
   \<and> last (imap (snd (handle_mail_rule 738000 full_disk_env
                        (MailBoxSSL ''imap.gmail.com'' 993) mark_read_rule empty_world)))
       = Flag [] [SEEN] True"
  by (simp add: eval_defs)

section \<open>Claims about the authentication and the errors of an account\<close>

lemma login_accepted:
  assumes "imap_r E (imap w) (Login (username acct) (password acct)) = None"
  shows "login E acct w = (None, w\<lparr>imap := imap w @ [Login (username acct) (password acct)]\<rparr>)"
  using assms by (simp add: login_def issue_def)

lemma login_other_error:
  assumes "imap_r E (imap w) (Login (username acct) (password acct)) = Some e"
    and "e \<noteq> UnicodeEncodeError"
  shows "login E acct w =
           (Some (MailError (ErrAuthenticating (account_name acct)) e),
            log Error (ErrorAuthenticating (account_name acct) e)
              (w\<lparr>imap := imap w @ [Login (username acct) (password acct)]\<rparr>))"
  using assms by (simp add: login_def issue_def)

lemma login_plain:
  assumes "imap_r E (imap w) (Login (username acct) (password acct)) = Some UnicodeEncodeError"
    and "encode_utf8 (username acct) = Inr u" and "encode_utf8 (password acct) = Inr p"
  shows "login E acct w =
           (let w2 = log Debug FallingBackToPlain
                       (w\<lparr>imap := imap w @ [Login (username acct) (password acct)]\<rparr>);
                plain = Authenticate ''PLAIN'' ([0] @ u @ [0] @ p);
                w3 = w2\<lparr>imap := imap w2 @ [plain]\<rparr>;
                w4 = w3\<lparr>imap := imap w3 @ [FolderSet ''INBOX'']\<rparr>
            in case imap_r E (imap w2) plain of
                 Some err \<Rightarrow>
                   (Some (MailError (ErrAuthenticating (account_name acct)) err),
                    log Error UnableToAuthenticatePlain w3)
               | None \<Rightarrow>
                   (case imap_r E (imap w3) (FolderSet ''INBOX'') of
                      Some err \<Rightarrow>
                        (Some (MailError (ErrAuthenticating (account_name acct)) err),
                         log Error UnableToAuthenticatePlain w4)
                    | None \<Rightarrow> (None, w4)))"
  using assms
  by (simp add: login_def auth_plain_def issue_def Let_def split: option.splits)

lemma login_plain_unencodable:
  assumes "imap_r E (imap w) (Login (username acct) (password acct)) = Some UnicodeEncodeError"
    and "encode_utf8 (username acct) = Inl err \<or>
         (\<exists>u. encode_utf8 (username acct) = Inr u) \<and> encode_utf8 (password acct) = Inl err"
  shows "login E acct w =
           (Some (MailError (ErrAuthenticating (account_name acct)) err),
            log Error UnableToAuthenticatePlain
              (log Debug FallingBackToPlain
                 (w\<lparr>imap := imap w @ [Login (username acct) (password acct)]\<rparr>)))"
  using assms
  by (auto simp: login_def auth_plain_def issue_def Let_def)

lemma login_raises_MailError:
  "login E acct w = (Some e, w') \<Longrightarrow> \<exists>c. e = MailError (ErrAuthenticating (account_name acct)) c"
  by (auto simp: login_def Let_def split: prod.splits option.splits if_splits)

lemma login_tasks: "login E acct w = (r, w') \<Longrightarrow> tasks w' = tasks w \<and> files w' = files w"
  by (auto simp: login_def auth_plain_def issue_def Let_def log_def
           split: prod.splits option.splits if_splits sum.splits)

lemma get_mailbox_host:
  "get_mailbox E server port security = Inr M \<Longrightarrow> host M = server \<and> connect_r E M = None"
  by (cases security) (auto simp: get_mailbox_def construct_def split: option.splits)

lemma session_login_failed:
  assumes "login E acct w = (Some e, w1)"
  shows "session today E M acct w = (Some e, 0, w1)"
  using assms by (simp add: session_def)

lemma handle_mail_account_released:
  assumes "get_mailbox E (imap_server acct) (imap_port acct) (imap_security acct) = Inr M"
    and "session today E M acct (log Debug (ProcessingAccount (account_name acct)) w) = (r, n, w1)"
    and "logout_r E (imap w1) = None"
  shows "handle_mail_account today E acct w =
           (case r of
              None \<Rightarrow> (Inr n, w1\<lparr>imap := imap w1 @ [Logout]\<rparr>)
            | Some e \<Rightarrow>
                if is_MailError e then (Inl e, w1\<lparr>imap := imap w1 @ [Logout]\<rparr>)
                else (Inr n, log Error (ErrorRetrievingMailbox (account_name acct) e)
                               (w1\<lparr>imap := imap w1 @ [Logout]\<rparr>)))"
  using assms by (simp add: handle_mail_account_def Let_def)


lemma handle_mail_account_login_failed:
  assumes "get_mailbox E (imap_server acct) (imap_port acct) (imap_security acct) = Inr M"
    and "login E acct (log Debug (ProcessingAccount (account_name acct)) w) = (Some e, w1)"
    and "logout_r E (imap w1) = None"
  shows "handle_mail_account today E acct w = (Inl e, w1\<lparr>imap := imap w1 @ [Logout]\<rparr>)"
proof -
  from login_raises_MailError [OF assms(2)] have "is_MailError e" by auto
  with handle_mail_account_released
         [OF assms(1) session_login_failed [OF assms(2)] assms(3), of today]
  show ?thesis by simp
qed

lemma handle_mail_account_login_failed_world:
  assumes "get_mailbox E (imap_server acct) (imap_port acct) (imap_security acct) = Inr M"
    and "login E acct (log Debug (ProcessingAccount (account_name acct)) w) = (Some e, w1)"
  shows "imap (snd (handle_mail_account today E acct w)) = imap w1 @ [Logout]"
    and "tasks (snd (handle_mail_account today E acct w)) = tasks w"
    and "files (snd (handle_mail_account today E acct w)) = files w"
proof -
  note s = session_login_failed [OF assms(2), of today M]
  have t: "tasks w1 = tasks w" "files w1 = files w"
    using login_tasks [OF assms(2)] by simp_all
  show "imap (snd (handle_mail_account today E acct w)) = imap w1 @ [Logout]"
       "tasks (snd (handle_mail_account today E acct w)) = tasks w"
       "files (snd (handle_mail_account today E acct w)) = files w"
    using assms(1) s t
    by (simp_all add: handle_mail_account_def Let_def split: option.splits)
qed




text \<open>
  C5. The authentication of an account. If the standard login is accepted, nothing else
  is sent. If, and only if, it raises \<open>UnicodeEncodeError\<close>, the handler falls back to
  SASL PLAIN: it sends \<open>AUTHENTICATE PLAIN\<close> with the bytes
  \<open>\0<username>\0<password>\<close>, both in UTF-8, and, when that is accepted, selects
  \<open>INBOX\<close>. A failure of the fallback (credentials that cannot be encoded, a refused
  authentication or a refused selection) and any other exception of the standard login
  raise \<open>MailError\<close> naming the account, after an error is logged. That error leaves
  the \<open>with\<close> block at once, with a count of zero: no rule has been processed, the
  session is released, and \<open>handle_mail_account\<close> leaves nothing written or queued
  and has sent nothing after the login but the release. When the release succeeds,
  \<open>handle_mail_account\<close> raises that error.
\<close>

theorem login_fallback:
  "(imap_r E (imap w) (Login (username acct) (password acct)) = None \<longrightarrow>
      login E acct w = (None, w\<lparr>imap := imap w @ [Login (username acct) (password acct)]\<rparr>))
   \<and> (imap_r E (imap w) (Login (username acct) (password acct)) = Some UnicodeEncodeError
        \<and> encode_utf8 (username acct) = Inr u \<and> encode_utf8 (password acct) = Inr p \<longrightarrow>
      login E acct w =
        (let w2 = log Debug FallingBackToPlain
                    (w\<lparr>imap := imap w @ [Login (username acct) (password acct)]\<rparr>);
             plain = Authenticate ''PLAIN'' ([0] @ u @ [0] @ p);
             w3 = w2\<lparr>imap := imap w2 @ [plain]\<rparr>;
             w4 = w3\<lparr>imap := imap w3 @ [FolderSet ''INBOX'']\<rparr>
         in case imap_r E (imap w2) plain of
              Some err \<Rightarrow>
                (Some (MailError (ErrAuthenticating (account_name acct)) err),
                 log Error UnableToAuthenticatePlain w3)
            | None \<Rightarrow>
                (case imap_r E (imap w3) (FolderSet ''INBOX'') of
                   Some err \<Rightarrow>
                     (Some (MailError (ErrAuthenticating (account_name acct)) err),
                      log Error UnableToAuthenticatePlain w4)
                 | None \<Rightarrow> (None, w4))))
   \<and> (imap_r E (imap w) (Login (username acct) (password acct)) = Some UnicodeEncodeError
        \<and> (encode_utf8 (username acct) = Inl err
             \<or> (\<exists>u. encode_utf8 (username acct) = Inr u) \<and> encode_utf8 (password acct) = Inl err) \<longrightarrow>
      login E acct w =
        (Some (MailError (ErrAuthenticating (account_name acct)) err),
         log Error UnableToAuthenticatePlain
           (log Debug FallingBackToPlain
              (w\<lparr>imap := imap w @ [Login (username acct) (password acct)]\<rparr>))))
   \<and> (imap_r E (imap w) (Login (username acct) (password acct)) = Some e
        \<and> e \<noteq> UnicodeEncodeError \<longrightarrow>
      login E acct w =
        (Some (MailError (ErrAuthenticating (account_name acct)) e),
         log Error (ErrorAuthenticating (account_name acct) e)
           (w\<lparr>imap := imap w @ [Login (username acct) (password acct)]\<rparr>)))
   \<and> (get_mailbox E (imap_server acct) (imap_port acct) (imap_security acct) = Inr M
        \<and> login E acct (log Debug (ProcessingAccount (account_name acct)) w0) = (Some e', w1) \<longrightarrow>
      session today E M acct (log Debug (ProcessingAccount (account_name acct)) w0) = (Some e', 0, w1)
      \<and> (\<exists>c. e' = MailError (ErrAuthenticating (account_name acct)) c)
      \<and> imap (snd (handle_mail_account today E acct w0)) = imap w1 @ [Logout]
      \<and> tasks (snd (handle_mail_account today E acct w0)) = tasks w0
      \<and> files (snd (handle_mail_account today E acct w0)) = files w0
      \<and> (logout_r E (imap w1) = None \<longrightarrow>
            handle_mail_account today E acct w0 = (Inl e', w1\<lparr>imap := imap w1 @ [Logout]\<rparr>)))"
  using login_accepted [of E w acct] login_plain [of E w acct u p]
        login_plain_unencodable [of E w acct err] login_other_error [of E w acct e]
        handle_mail_account_login_failed [of E acct M w0 e' w1 today]
        handle_mail_account_login_failed_world [of E acct M w0 e' w1 today]
        session_login_failed [of E acct "log Debug (ProcessingAccount (account_name acct)) w0" e' w1
                                today M]
        login_raises_MailError [of E acct "log Debug (ProcessingAccount (account_name acct)) w0" e' w1]
  by (simp add: log_def)

theorem login_fallback_witness:
  "login ascii_login_env example_account empty_world =
     (None, \<lparr>imap = [Login [117, 115, 101, 114] [112, 228, 115, 115],
                      Authenticate ''PLAIN'' [0, 117, 115, 101, 114, 0, 112, 195, 164, 115, 115],
                      FolderSet ''INBOX''],
             files = [], tasks = [], logged = [(Debug, FallingBackToPlain)]\<rparr>)
   \<and> handle_mail_account 738000 rejecting_env example_account empty_world =
       (Inl (MailError (ErrAuthenticating ''home'') (OtherError ''AUTHENTICATIONFAILED'')),
        \<lparr>imap = [Login [117, 115, 101, 114] [112, 228, 115, 115], Logout],
         files = [], tasks = [],
         logged = [(Debug, ProcessingAccount ''home''),
                   (Error, ErrorAuthenticating ''home'' (OtherError ''AUTHENTICATIONFAILED''))]\<rparr>)"
proof -
  have l: "imap_r ascii_login_env (imap empty_world)
             (Login (username example_account) (password example_account))
           = Some UnicodeEncodeError"
    by (simp add: ascii_login_env_def example_env_def)
  have u: "encode_utf8 (username example_account) = Inr [117, 115, 101, 114]"
    by (simp add: example_account_def utf8_char_def)
  have p: "encode_utf8 (password example_account) = Inr [112, 195, 164, 115, 115]"
    by (simp add: example_account_def utf8_char_def)
  have 1: "login ascii_login_env example_account empty_world =
     (None, \<lparr>imap = [Login [117, 115, 101, 114] [112, 228, 115, 115],
                      Authenticate ''PLAIN'' [0, 117, 115, 101, 114, 0, 112, 195, 164, 115, 115],
                      FolderSet ''INBOX''],
             files = [], tasks = [], logged = [(Debug, FallingBackToPlain)]\<rparr>)"
    using login_fallback [where E = ascii_login_env and acct = example_account
                            and w = empty_world and u = "[117, 115, 101, 114]"
                            and p = "[112, 195, 164, 115, 115]"] l u p
    by (simp add: ascii_login_env_def example_env_def example_account_def empty_world_def log_def)
  let ?w1 = "\<lparr>imap = [Login [117, 115, 101, 114] [112, 228, 115, 115]], files = [], tasks = [],
               logged = [(Debug, ProcessingAccount ''home''),
                         (Error, ErrorAuthenticating ''home''
                                   (OtherError ''AUTHENTICATIONFAILED''))]\<rparr>"
  have g: "get_mailbox rejecting_env (imap_server example_account) (imap_port example_account)
             (imap_security example_account) = Inr (MailBoxSSL ''imap.gmail.com'' 993)"
    by (simp add: get_mailbox_def construct_def rejecting_env_def example_env_def
                  example_account_def)
  have f: "login rejecting_env example_account
             (log Debug (ProcessingAccount (account_name example_account)) empty_world)
           = (Some (MailError (ErrAuthenticating ''home'') (OtherError ''AUTHENTICATIONFAILED'')),
              ?w1)"
    by (simp add: login_def issue_def rejecting_env_def example_env_def example_account_def
                  empty_world_def log_def)
  have r: "logout_r rejecting_env (imap ?w1) = None"
    by (simp add: rejecting_env_def example_env_def)
  have 2: "handle_mail_account 738000 rejecting_env example_account empty_world =
       (Inl (MailError (ErrAuthenticating ''home'') (OtherError ''AUTHENTICATIONFAILED'')),
        \<lparr>imap = [Login [117, 115, 101, 114] [112, 228, 115, 115], Logout],
         files = [], tasks = [],
         logged = [(Debug, ProcessingAccount ''home''),
                   (Error, ErrorAuthenticating ''home'' (OtherError ''AUTHENTICATIONFAILED''))]\<rparr>)"
    using login_fallback [where E = rejecting_env and acct = example_account
                            and w0 = empty_world and today = 738000
                            and M = "MailBoxSSL ''imap.gmail.com'' 993"
                            and e' = "MailError (ErrAuthenticating ''home'')
                                        (OtherError ''AUTHENTICATIONFAILED'')"
                            and ?w1.0 = ?w1] g f r
    by simp
  from 1 2 show ?thesis by simp
qed




section \<open>Claims about the pass over the rules of an account\<close>

text \<open>
  C6. The rules of an account are handled in ascending order of their \<open>order\<close>. Every
  rule of the list is started (its folder selection is logged) whatever happened to the
  rules before it; an exception of a rule, such as the \<open>MailError\<close> of a folder that
  does not exist, is caught and logged as an error of that rule; and the total is the
  sum of the counts of the rules that returned, a rule that raised counting nothing.
  After a successful login \<open>handle_mail_account\<close> returns that total.
\<close>

theorem rule_failure_isolation:
  "(handle_rules today E M rs total_files w = (res, w') \<longrightarrow>
      res = total_files + sum_list (map counted (rule_results today E M rs w))
      \<and> length (rule_results today E M rs w) = length rs
      \<and> (\<exists>ls. logged w' = logged w @ ls
           \<and> (\<forall>(rule, r) \<in> set (zip rs (rule_results today E M rs w)).
                (Debug, SelectingFolder (rule_name rule) (folder rule)) \<in> set ls
                \<and> (\<forall>e. r = Inl e \<longrightarrow>
                       (Error, ErrorProcessingRule (rule_name rule) e) \<in> set ls))))
   \<and> (imap_r E (imap w) (FolderSet (folder rule)) = Some MailboxFolderSelectError \<longrightarrow>
        fst (handle_mail_rule today E M rule w) =
          Inl (MailError (ErrFolder (rule_name rule) (folder rule) (account_name (account rule)))
                 MailboxFolderSelectError))
   \<and> (get_mailbox E (imap_server acct) (imap_port acct) (imap_security acct) = Inr M
        \<and> login E acct (log Debug (ProcessingAccount (account_name acct)) v) = (None, v') \<longrightarrow>
        fst (handle_mail_account today E acct v) =
          Inr (sum_list (map counted
                 (rule_results today E M (sort_key order (rules E acct))
                    (log Debug (ProcessingRules (account_name acct) (length (rules E acct))) v'))))
        \<and> sorted (map order (sort_key order (rules E acct)))
        \<and> set (sort_key order (rules E acct)) = set (rules E acct)
        \<and> length (sort_key order (rules E acct)) = length (rules E acct))"
proof -
  let ?rs = "sort_key order (rules E acct)"
  let ?w2 = "log Debug (ProcessingRules (account_name acct) (length (rules E acct))) v'"
  have 1: "handle_rules today E M rs total_files w = (res, w') \<longrightarrow>
      res = total_files + sum_list (map counted (rule_results today E M rs w))
      \<and> length (rule_results today E M rs w) = length rs
      \<and> (\<exists>ls. logged w' = logged w @ ls
           \<and> (\<forall>(rule, r) \<in> set (zip rs (rule_results today E M rs w)).
                (Debug, SelectingFolder (rule_name rule) (folder rule)) \<in> set ls
                \<and> (\<forall>e. r = Inl e \<longrightarrow>
                       (Error, ErrorProcessingRule (rule_name rule) e) \<in> set ls)))"
    using handle_rules_results [of today E M rs total_files w res w'] by simp
  have 2: "imap_r E (imap w) (FolderSet (folder rule)) = Some MailboxFolderSelectError \<longrightarrow>
        fst (handle_mail_rule today E M rule w) =
          Inl (MailError (ErrFolder (rule_name rule) (folder rule) (account_name (account rule)))
                 MailboxFolderSelectError)"
    using handle_mail_rule_folder_missing [of E w rule today M] by simp
  have "fst (handle_rules today E M ?rs 0 ?w2)
          = sum_list (map counted (rule_results today E M ?rs ?w2))"
    using handle_rules_results [of today E M ?rs 0 ?w2 "fst (handle_rules today E M ?rs 0 ?w2)"
                                  "snd (handle_rules today E M ?rs 0 ?w2)"]
    by simp
  then have 3: "get_mailbox E (imap_server acct) (imap_port acct) (imap_security acct) = Inr M
        \<and> login E acct (log Debug (ProcessingAccount (account_name acct)) v) = (None, v') \<longrightarrow>
        fst (handle_mail_account today E acct v) =
          Inr (sum_list (map counted (rule_results today E M ?rs ?w2)))"
    using handle_mail_account_logged_in [of E acct M v v' today] by simp
  have 4: "sorted (map order ?rs)" "set ?rs = set (rules E acct)"
          "length ?rs = length (rules E acct)"
    by simp_all
  from 1 2 3 4 show ?thesis by blast
qed

theorem rule_failure_isolation_witness:
  "sort_key order (rules two_rules_env example_account) = [archive_rule, example_rule]
   \<and> rule_results 738000 two_rules_env (MailBoxSSL ''imap.gmail.com'' 993)
        [archive_rule, example_rule] empty_world
       = [Inl (MailError (ErrFolder ''archive'' ''Archive'' ''home'') MailboxFolderSelectError),
          Inr 1]
   \<and> fst (handle_rules 738000 two_rules_env (MailBoxSSL ''imap.gmail.com'' 993)
             [archive_rule, example_rule] 0 empty_world) = 1
   \<and> fst (handle_mail_account 738000 two_rules_env example_account empty_world) = Inr 1"
proof -
  let ?M = "MailBoxSSL ''imap.gmail.com'' 993"
  let ?X = "handle_rules 738000 two_rules_env ?M [archive_rule, example_rule] 0 empty_world"
  let ?w0 = "log Debug (ProcessingAccount (account_name example_account)) empty_world"
  let ?w1 = "?w0\<lparr>imap := [Login (username example_account) (password example_account)]\<rparr>"
  have s: "sort_key order (rules two_rules_env example_account) = [archive_rule, example_rule]"
    by (simp add: two_rules_env_def archive_rule_def example_rule_def)
  have r: "rule_results 738000 two_rules_env ?M [archive_rule, example_rule] empty_world
       = [Inl (MailError (ErrFolder ''archive'' ''Archive'' ''home'') MailboxFolderSelectError),
          Inr 1]"
    by (simp add: eval_rule_defs)
  have x: "?X = (fst ?X, snd ?X)" by simp
  from rule_failure_isolation
         [where today = 738000 and E = two_rules_env and M = ?M
            and rs = "[archive_rule, example_rule]" and total_files = 0 and w = empty_world
            and res = "fst ?X" and w' = "snd ?X"] x
  have "fst ?X = 0 + sum_list (map counted
          (rule_results 738000 two_rules_env ?M [archive_rule, example_rule] empty_world))"
    by blast
  with r have h: "fst ?X = 1" by simp
  have g: "get_mailbox two_rules_env (imap_server example_account) (imap_port example_account)
             (imap_security example_account) = Inr ?M"
    by (simp add: get_mailbox_def construct_def two_rules_env_def example_env_def
                  example_account_def)
  have l: "login two_rules_env example_account ?w0 = (None, ?w1)"
    by (simp add: login_def issue_def two_rules_env_def example_env_def empty_world_def log_def)
  have r2: "rule_results 738000 two_rules_env ?M [archive_rule, example_rule]
              (log Debug (ProcessingRules (account_name example_account)
                            (length (rules two_rules_env example_account))) ?w1)
       = [Inl (MailError (ErrFolder ''archive'' ''Archive'' ''home'') MailboxFolderSelectError),
          Inr 1]"
    by (simp add: eval_rule_defs)
  from rule_failure_isolation
         [where today = 738000 and E = two_rules_env and M = ?M and acct = example_account
            and v = empty_world and v' = ?w1] g l
  have "fst (handle_mail_account 738000 two_rules_env example_account empty_world) =
          Inr (sum_list (map counted
                 (rule_results 738000 two_rules_env ?M
                    (sort_key order (rules two_rules_env example_account))
                    (log Debug (ProcessingRules (account_name example_account)
                                  (length (rules two_rules_env example_account))) ?w1))))"
    by blast
  with s r2 have a: "fst (handle_mail_account 738000 two_rules_env example_account empty_world)
                       = Inr 1"
    by simp
  from s r h a show ?thesis by simp
qed

lemma handle_mail_rule_post_consume_failed:
  assumes "imap_r E (imap w) (FolderSet (folder rule)) = None"
    and "make_criterias today rule = Inr m"
    and "criterias_imap m = Inr q"
    and "fetch_r E (imap w @ [FolderSet (folder rule)])
           (Fetch q False (character_set (account rule))) = Inr (messages, None)"
    and "handle_messages E rule messages ([], 0, 0)
           ((log Debug (Searching (rule_name rule) q)
               (log Debug (SelectingFolder (rule_name rule) (folder rule)) w))
            \<lparr>imap := imap w @ [FolderSet (folder rule),
                                Fetch q False (character_set (account rule))]\<rparr>)
         = ((batch, mails_processed, total_files), w4)"
    and "get_rule_action rule = Inr a"
    and "post_consume E a M batch (action_parameter rule)
           (log Debug (RunningActions (rule_name rule) (length batch))
              (log Debug (ProcessedMails (rule_name rule) mails_processed) w4)) = (Some e, w7)"
  shows "handle_mail_rule today E M rule w =
           (Inl (MailError (ErrPostConsume (rule_name rule)) e), w7)"
    and "tasks w7 = tasks w4"
proof -
  have e: "(log Debug (Searching (rule_name rule) q)
              (log Debug (SelectingFolder (rule_name rule) (folder rule)) w))
           \<lparr>imap := imap w @ [FolderSet (folder rule),
                               Fetch q False (character_set (account rule))]\<rparr>
           = at_fetch rule q w"
    by (simp add: at_fetch_def)
  show "handle_mail_rule today E M rule w =
           (Inl (MailError (ErrPostConsume (rule_name rule)) e), w7)"
    using handle_mail_rule_at_fetch [OF assms(1,2,3), of M] assms(4,6,7) assms(5) [unfolded e]
    by (simp add: Let_def)
  show "tasks w7 = tasks w4"
    using post_consume_tasks [OF assms(7)] by simp
qed

text \<open>
  C10. A failure of the post-consume action discards the count of its rule. If the
  folder was selected, the query built, the messages all fetched and handled (with
  \<open>total_files\<close> files dispatched and the tasks queued in \<open>w4\<close>) and
  \<open>post_consume\<close> then raises,
  \<open>handle_mail_rule\<close> raises \<open>MailError\<close> and returns no count, while the queued
  tasks stay queued. The loop over the rules then goes on with the total it had before
  the rule, so that the total of the account is the sum over the other rules, and what
  the rule had queued is still in the queue at the end.
\<close>

theorem post_consume_failure_discards_count:
  "(imap_r E (imap w) (FolderSet (folder rule)) = None
      \<and> make_criterias today rule = Inr m
      \<and> criterias_imap m = Inr q
      \<and> fetch_r E (imap w @ [FolderSet (folder rule)])
           (Fetch q False (character_set (account rule))) = Inr (messages, None)
      \<and> handle_messages E rule messages ([], 0, 0)
           ((log Debug (Searching (rule_name rule) q)
               (log Debug (SelectingFolder (rule_name rule) (folder rule)) w))
            \<lparr>imap := imap w @ [FolderSet (folder rule),
                                Fetch q False (character_set (account rule))]\<rparr>)
         = ((batch, mails_processed, total_files), w4)
      \<and> get_rule_action rule = Inr a
      \<and> post_consume E a M batch (action_parameter rule)
           (log Debug (RunningActions (rule_name rule) (length batch))
              (log Debug (ProcessedMails (rule_name rule) mails_processed) w4)) = (Some e, w7) \<longrightarrow>
      handle_mail_rule today E M rule w =
        (Inl (MailError (ErrPostConsume (rule_name rule)) e), w7)
      \<and> tasks w7 = tasks w4)
   \<and> (handle_mail_rule today E M rule w = (Inl (MailError (ErrPostConsume n) e), w') \<longrightarrow>
        handle_rules today E M (rule # rs) tot w =
          handle_rules today E M rs tot
            (log Error (ErrorProcessingRule (rule_name rule) (MailError (ErrPostConsume n) e)) w')
        \<and> fst (handle_rules today E M (rule # rs) tot w) =
            tot + sum_list (map counted
                    (rule_results today E M rs
                       (log Error (ErrorProcessingRule (rule_name rule)
                                     (MailError (ErrPostConsume n) e)) w')))
        \<and> prefix (tasks w') (tasks (snd (handle_rules today E M (rule # rs) tot w))))"
proof -
  let ?w2 = "log Error (ErrorProcessingRule (rule_name rule) (MailError (ErrPostConsume n) e)) w'"
  let ?X = "handle_rules today E M rs tot ?w2"
  have "fst ?X = tot + sum_list (map counted (rule_results today E M rs ?w2))"
       "prefix (tasks ?w2) (tasks (snd ?X))"
    using handle_rules_results [of today E M rs tot ?w2 "fst ?X" "snd ?X"] by simp_all
  then have 2: "handle_mail_rule today E M rule w = (Inl (MailError (ErrPostConsume n) e), w') \<longrightarrow>
        handle_rules today E M (rule # rs) tot w = ?X
        \<and> fst (handle_rules today E M (rule # rs) tot w) =
            tot + sum_list (map counted (rule_results today E M rs ?w2))
        \<and> prefix (tasks w') (tasks (snd (handle_rules today E M (rule # rs) tot w)))"
    by (simp add: log_def)
  from handle_mail_rule_post_consume_failed
         [of E w rule today m q messages batch mails_processed total_files w4 a M e w7] 2
  show ?thesis by blast
qed

theorem post_consume_failure_discards_count_witness:
  "fst (handle_mail_rule 738000 read_only_env (MailBoxSSL ''imap.gmail.com'' 993) mark_read_rule
          empty_world)
     = Inl (MailError (ErrPostConsume ''invoices'') (OtherError ''read-only mailbox''))
   \<and> map task_name (tasks (snd (handle_mail_rule 738000 read_only_env
                                  (MailBoxSSL ''imap.gmail.com'' 993) mark_read_rule empty_world)))
       = [''invoice.pdf'']
   \<and> fst (handle_rules 738000 read_only_env (MailBoxSSL ''imap.gmail.com'' 993)
             [mark_read_rule] 0 empty_world) = 0
   \<and> fst (handle_mail_account 738000 read_only_env example_account empty_world) = Inr 0
   \<and> map task_name (tasks (snd (handle_mail_account 738000 read_only_env example_account
                                  empty_world)))
       = [''invoice.pdf'']"
proof -
  let ?M = "MailBoxSSL ''imap.gmail.com'' 993"
  let ?R = "handle_mail_rule 738000 read_only_env ?M mark_read_rule empty_world"
  have f: "fst ?R = Inl (MailError (ErrPostConsume ''invoices'') (OtherError ''read-only mailbox''))"
    by (simp add: eval_rule_defs)
  then have r: "?R = (Inl (MailError (ErrPostConsume ''invoices'')
                             (OtherError ''read-only mailbox'')), snd ?R)"
    by (metis prod.collapse)
  have t: "map task_name (tasks (snd ?R)) = [''invoice.pdf'']"
    by (simp add: eval_rule_defs)
  from post_consume_failure_discards_count
         [where today = 738000 and E = read_only_env and M = ?M and rule = mark_read_rule
            and w = empty_world and n = "''invoices''" and e = "OtherError ''read-only mailbox''"
            and w' = "snd ?R" and rs = "[]" and tot = 0] r
  have "fst (handle_rules 738000 read_only_env ?M (mark_read_rule # []) 0 empty_world) =
          0 + sum_list (map counted
                (rule_results 738000 read_only_env ?M []
                   (log Error (ErrorProcessingRule (rule_name mark_read_rule)
                                 (MailError (ErrPostConsume ''invoices'')
                                    (OtherError ''read-only mailbox''))) (snd ?R))))"
    by blast
  then have h: "fst (handle_rules 738000 read_only_env ?M [mark_read_rule] 0 empty_world) = 0"
    by simp
  have a: "fst (handle_mail_account 738000 read_only_env example_account empty_world) = Inr 0"
    by (simp add: handle_mail_account_def session_def login_def get_mailbox_def construct_def
                  eval_rule_defs)
  have q: "map task_name (tasks (snd (handle_mail_account 738000 read_only_env example_account
                                        empty_world))) = [''invoice.pdf'']"
    by (simp add: handle_mail_account_def session_def login_def get_mailbox_def construct_def
                  eval_rule_defs)
  from f t h a q show ?thesis by simp
qed

end
